theory Spec2Isabelle
  imports Main "HOL-Library.Log_Nat"
begin

section \<open>Binary64 floating point, as Python's \<open>float\<close> computes\<close>

text \<open>
  A finite Python float is a binary64 number. It is modelled by its exact rational value;
  every arithmetic operation of the script is the exact operation followed by \<open>fl\<close>,
  rounding to the nearest binary64 number, ties to the even significand. The quantum of a
  normal number in the binade \<open>2 ^ e \<le> \<bar>x\<bar> < 2 ^ (e + 1)\<close> is \<open>2 ^ (e - 52)\<close>, that of a
  subnormal number is \<open>2 ^ (- 1074)\<close>. The script's values stay below 128 in magnitude, so
  overflow to infinity is not part of the model.
\<close>

type_synonym double = rat

definition round_half_even :: "rat \<Rightarrow> int" where
  "round_half_even x =
     (let f = \<lfloor>x\<rfloor>; d = x - of_int f
      in if d < 1 / 2 then f
         else if 1 / 2 < d then f + 1
         else if even f then f else f + 1)"

definition binade :: "rat \<Rightarrow> int" where
  "binade x =
     (let (p, q) = quotient_of \<bar>x\<bar>; b = bitlen p - bitlen q
      in if 2 powi b \<le> \<bar>x\<bar> then b else b - 1)"

definition fl :: "rat \<Rightarrow> double" where
  "fl x =
     (if x = 0 then 0
      else let q = max (binade x - 52) (- 1074)
           in of_int (round_half_even (x / 2 powi q)) * 2 powi q)"

text \<open>
  \<open>round(x, ndigits)\<close> on a float: CPython converts \<open>x\<close> to the correctly rounded decimal
  with \<open>ndigits\<close> digits after the point (ties of the exact value to even) and reads that
  decimal back as the nearest float.
\<close>

definition py_round :: "double \<Rightarrow> nat \<Rightarrow> double" where
  "py_round x ndigits = fl (of_int (round_half_even (x * 10 ^ ndigits)) / 10 ^ ndigits)"

text \<open>\<open>random.uniform(a, b)\<close> is \<open>a + (b - a) * self.random()\<close>, in floats.\<close>

definition uniform :: "double \<Rightarrow> double \<Rightarrow> double \<Rightarrow> double" where
  "uniform a b r = fl (a + fl (fl (b - a) * r))"

text \<open>
  \<open>random.random()\<close> returns a float \<open>k / 2 ^ 53\<close> with \<open>0 \<le> k < 2 ^ 53\<close>.
\<close>

definition random_value :: "rat \<Rightarrow> bool" where
  "random_value r \<longleftrightarrow> 0 \<le> r \<and> r < 1 \<and> of_int \<lfloor>r * 2 ^ 53\<rfloor> = r * 2 ^ 53"

section \<open>Text: decimal numerals, \<open>repr\<close> of a float, \<open>isoformat\<close>\<close>

definition digit_char :: "int \<Rightarrow> char" where
  "digit_char d =
     (if d = 0 then CHR ''0'' else if d = 1 then CHR ''1'' else if d = 2 then CHR ''2''
      else if d = 3 then CHR ''3'' else if d = 4 then CHR ''4'' else if d = 5 then CHR ''5''
      else if d = 6 then CHR ''6'' else if d = 7 then CHR ''7'' else if d = 8 then CHR ''8''
      else CHR ''9'')"

text \<open>The decimal numeral of a non-negative integer, and of any integer.\<close>

function show_nat :: "int \<Rightarrow> string" where
  "show_nat n = (if n < 10 then [digit_char n] else show_nat (n div 10) @ [digit_char (n mod 10)])"
  by pat_completeness auto
termination
  by (relation "measure nat") auto

declare show_nat.simps [simp del]

definition show_int :: "int \<Rightarrow> string" where
  "show_int i = (if i < 0 then CHR ''-'' # show_nat (- i) else show_nat i)"

text \<open>The number of decimal digits of a positive integer (0 for the others).\<close>

function declen :: "int \<Rightarrow> int" where
  "declen n = (if n \<le> 0 then 0 else declen (n div 10) + 1)"
  by pat_completeness auto
termination
  by (relation "measure nat") auto

declare declen.simps [simp del]

definition zero_pad :: "nat \<Rightarrow> string \<Rightarrow> string" where
  "zero_pad w s = replicate (w - length s) CHR ''0'' @ s"

text \<open>
  The decimal point position of a non-zero value: \<open>decade x = k\<close> with
  \<open>10 ^ (k - 1) \<le> \<bar>x\<bar> < 10 ^ k\<close>.
\<close>

definition decade :: "rat \<Rightarrow> int" where
  "decade x =
     (let (p, q) = quotient_of \<bar>x\<bar>;
          b = declen p - declen q
      in if 10 powi b \<le> \<bar>x\<bar> then b + 1 else b)"

text \<open>
  \<open>repr\<close> of a float prints the shortest decimal that reads back as the same float and,
  among those of that length, the one nearest to it. \<open>shortest_digits x k ns\<close> tries the
  digit counts \<open>ns\<close> in turn on a positive \<open>x\<close> with \<open>decade x = k\<close> and returns the integer
  of the digits and its decimal exponent; 17 digits always suffice for a binary64 number.
\<close>

fun shortest_digits :: "rat \<Rightarrow> int \<Rightarrow> nat list \<Rightarrow> int \<times> int" where
  "shortest_digits x k [] = (round_half_even (x / 10 powi (k - 17)), k - 17)"
| "shortest_digits x k (n # ns) =
     (let s = 10 powi (k - int n);
          near = round_half_even (x / s);
          lo = \<lfloor>x / s\<rfloor>;
          far = (if near = lo then lo + 1 else lo)
      in if fl (of_int near * s) = x then (near, k - int n)
         else if fl (of_int far * s) = x then (far, k - int n)
         else shortest_digits x k ns)"

definition strip_zeros :: "string \<Rightarrow> string" where
  "strip_zeros ds = rev (dropWhile (\<lambda>c. c = CHR ''0'') (rev ds))"

definition float_repr :: "double \<Rightarrow> string" where
  "float_repr x =
     (if x = 0 then ''0.0''
      else
        let (c, e) = shortest_digits \<bar>x\<bar> (decade \<bar>x\<bar>) [1..<18];
            all_ds = show_nat c;
            decpt = int (length all_ds) + e;
            ds = strip_zeros all_ds;
            n = int (length ds);
            body =
              (if decpt \<le> - 4 \<or> 16 < decpt then
                 take 1 ds @ (if 1 < n then CHR ''.'' # drop 1 ds else [])
                 @ ''e'' @ (if decpt - 1 < 0 then ''-'' else ''+'')
                 @ zero_pad 2 (show_nat \<bar>decpt - 1\<bar>)
               else if decpt \<le> 0 then ''0.'' @ replicate (nat (- decpt)) CHR ''0'' @ ds
               else if n \<le> decpt then ds @ replicate (nat (decpt - n)) CHR ''0'' @ ''.0''
               else take (nat decpt) ds @ CHR ''.'' # drop (nat decpt) ds)
        in (if x < 0 then CHR ''-'' # body else body))"

text \<open>
  A naive \<open>datetime\<close>, as \<open>datetime.utcnow()\<close> returns it, and its \<open>isoformat()\<close>:
  \<open>YYYY-MM-DDTHH:MM:SS\<close>, followed by \<open>.ffffff\<close> when the microsecond is not zero.
\<close>

record datetime =
  dt_year :: int
  dt_month :: int
  dt_day :: int
  dt_hour :: int
  dt_minute :: int
  dt_second :: int
  dt_microsecond :: int

definition isoformat :: "datetime \<Rightarrow> string" where
  "isoformat d =
     zero_pad 4 (show_nat (dt_year d)) @ ''-'' @ zero_pad 2 (show_nat (dt_month d)) @ ''-''
     @ zero_pad 2 (show_nat (dt_day d)) @ ''T''
     @ zero_pad 2 (show_nat (dt_hour d)) @ '':'' @ zero_pad 2 (show_nat (dt_minute d)) @ '':''
     @ zero_pad 2 (show_nat (dt_second d))
     @ (if dt_microsecond d = 0 then [] else CHR ''.'' # zero_pad 6 (show_nat (dt_microsecond d)))"

section \<open>Python values and \<open>json.dumps\<close>\<close>

text \<open>
  The values the script builds and serialises: \<open>None\<close>, booleans, integers, floats,
  strings, lists, and dictionaries with string keys, in insertion order. Strings are over
  the code points below 256.
\<close>

datatype pyval =
    PNone
  | PBool bool
  | PInt int
  | PFloat double
  | PStr string
  | PList "pyval list"
  | PDict "(string \<times> pyval) list"

fun dict_get :: "pyval \<Rightarrow> string \<Rightarrow> pyval option" where
  "dict_get (PDict kvs) k = map_of kvs k"
| "dict_get _ k = None"

fun dict_keys :: "pyval \<Rightarrow> string list" where
  "dict_keys (PDict kvs) = map fst kvs"
| "dict_keys _ = []"

definition hex_char :: "nat \<Rightarrow> char" where
  "hex_char d = (''0123456789abcdef'') ! d"

text \<open>
  \<open>json.dumps\<close> with its defaults (\<open>ensure_ascii=True\<close>, separators \<open>', '\<close> and
  \<open>': '\<close>): a string is quoted, with the quote, the backslash and every character
  outside \<open>' '..'~'\<close> escaped; a float is written by \<open>float.__repr__\<close>.
\<close>

definition escape_char :: "char \<Rightarrow> string" where
  "escape_char c =
     (if c = CHR 0x22 then [CHR 0x5C, CHR 0x22]
      else if c = CHR 0x5C then [CHR 0x5C, CHR 0x5C]
      else if c = CHR 0x0A then [CHR 0x5C, CHR ''n'']
      else if c = CHR 0x0D then [CHR 0x5C, CHR ''r'']
      else if c = CHR 0x09 then [CHR 0x5C, CHR ''t'']
      else if c = CHR 0x08 then [CHR 0x5C, CHR ''b'']
      else if c = CHR 0x0C then [CHR 0x5C, CHR ''f'']
      else if (of_char c :: nat) < 32 \<or> 126 < (of_char c :: nat) then
        [CHR 0x5C, CHR ''u'', CHR ''0'', CHR ''0'',
         hex_char (of_char c div 16), hex_char (of_char c mod 16)]
      else [c])"

definition encode_basestring_ascii :: "string \<Rightarrow> string" where
  "encode_basestring_ascii s = CHR 0x22 # concat (map escape_char s) @ [CHR 0x22]"

fun join :: "string \<Rightarrow> string list \<Rightarrow> string" where
  "join sep [] = []"
| "join sep [x] = x"
| "join sep (x # y # ys) = x @ sep @ join sep (y # ys)"

fun json_dumps :: "pyval \<Rightarrow> string" where
  "json_dumps PNone = ''null''"
| "json_dumps (PBool b) = (if b then ''true'' else ''false'')"
| "json_dumps (PInt i) = show_int i"
| "json_dumps (PFloat x) = float_repr x"
| "json_dumps (PStr s) = encode_basestring_ascii s"
| "json_dumps (PList vs) = ''['' @ join '', '' (map json_dumps vs) @ '']''"
| "json_dumps (PDict kvs) =
     ''{'' @ join '', '' (map (\<lambda>kv. encode_basestring_ascii (fst kv) @ '': '' @ json_dumps (snd kv)) kvs)
     @ ''}''"

section \<open>The script\<close>

definition BROKER_ADDRESS :: string where
  "BROKER_ADDRESS = ''YOUR_CLUSTER_URL.s2.eu.hivemq.cloud''"

definition PORT :: int where
  "PORT = 8883"

definition TOPIC :: string where
  "TOPIC = ''cargo/telemetry''"

definition INTERVAL :: int where
  "INTERVAL = 5"

definition DURATION_HOURS :: int where
  "DURATION_HOURS = 5"

definition TOTAL_STEPS :: int where
  "TOTAL_STEPS = (DURATION_HOURS * 3600) div INTERVAL"

text \<open>
  \<open>generate_cargo_data\<close> reads the clock once and draws four random numbers, in the
  order of the dictionary display: latitude, longitude, temperature, battery. The clock
  reading \<open>now\<close> and the four results of \<open>random.random()\<close> are its inputs here.
\<close>

definition generate_cargo_data :: "datetime \<Rightarrow> double \<Rightarrow> double \<Rightarrow> double \<Rightarrow> double \<Rightarrow> pyval" where
  "generate_cargo_data now r1 r2 r3 r4 =
     PDict
      [(''device_id'', PStr ''CARGO-ESP32-001''),
       (''timestamp'', PStr (isoformat now @ ''Z'')),
       (''location'',
          PDict
           [(''lat'', PFloat (py_round (fl (fl (13521 / 10000) + uniform (- fl (1 / 1000)) (fl (1 / 1000)) r1)) 4)),
            (''lon'', PFloat (py_round (fl (fl (1038198 / 10000) + uniform (- fl (1 / 1000)) (fl (1 / 1000)) r2)) 4))]),
       (''temperature'', PFloat (py_round (fl (fl (42 / 10) + uniform (- fl (5 / 10)) (fl (5 / 10)) r3)) 1)),
       (''battery'', PFloat (py_round (fl (87 - fl (r4 * 2))) 1))]"

text \<open>
  The world outside the script: whether each call raises, what the clock shows at
  iteration \<open>i\<close>, and what the \<open>j\<close>-th call of \<open>random.random()\<close> in iteration \<open>i\<close>
  returns. An exception is a \<open>KeyboardInterrupt\<close> or any other exception, named by its
  class. An asynchronous interrupt is an exception of the call it interrupts.
\<close>

datatype exn = KeyboardInterrupt | Error string

datatype call_site =
    PrintConnecting | Connect | LoopStart
  | Generate nat | Publish nat | PrintProgress nat | Sleep nat
  | PrintStopping | LoopStop | Disconnect

record world =
  raises :: "call_site \<Rightarrow> exn option"
  utcnow :: "nat \<Rightarrow> datetime"
  random :: "nat \<Rightarrow> nat \<Rightarrow> double"

text \<open>What the script does to the outside, in order.\<close>

datatype event =
    Printed string
  | Called_connect string int int
  | Called_loop_start
  | Called_publish string string int
  | Slept int
  | Called_loop_stop
  | Called_disconnect

text \<open>
  A computation takes the trace so far and returns the extended trace with \<open>None\<close>
  when it returns, \<open>Some e\<close> when \<open>e\<close> propagates out of it.
\<close>

type_synonym outcome = "event list \<times> exn option"

definition call :: "world \<Rightarrow> call_site \<Rightarrow> event \<Rightarrow> event list \<Rightarrow> outcome" where
  "call w c ev tr = (tr @ [ev], raises w c)"

definition and_then :: "outcome \<Rightarrow> (event list \<Rightarrow> outcome) \<Rightarrow> outcome" where
  "and_then r f = (case r of (tr, None) \<Rightarrow> f tr | (tr, Some e) \<Rightarrow> (tr, Some e))"

definition reading_at :: "world \<Rightarrow> nat \<Rightarrow> pyval" where
  "reading_at w i = generate_cargo_data (utcnow w i) (random w i 0) (random w i 1) (random w i 2) (random w i 3)"

definition progress_line :: "nat \<Rightarrow> pyval \<Rightarrow> string" where
  "progress_line i data =
     ''['' @ show_int (int i + 1) @ ''/'' @ show_int TOTAL_STEPS @ ''] Published to HiveMQ: ''
     @ (case dict_get data ''temperature'' of Some (PFloat t) \<Rightarrow> float_repr t | _ \<Rightarrow> [])
     @ [CHR 0xC2, CHR 0xB0, CHR ''C'']"

text \<open>One iteration of the loop body, lines 53 to 57.\<close>

definition loop_body :: "world \<Rightarrow> nat \<Rightarrow> event list \<Rightarrow> outcome" where
  "loop_body w i tr =
     and_then (tr, raises w (Generate i)) (\<lambda>tr.
     and_then (call w (Publish i) (Called_publish TOPIC (json_dumps (reading_at w i)) 1) tr) (\<lambda>tr.
     and_then (call w (PrintProgress i) (Printed (progress_line i (reading_at w i))) tr) (\<lambda>tr.
     call w (Sleep i) (Slept INTERVAL) tr)))"

text \<open>\<open>for i in range(...)\<close>: the body runs on each index in turn until one raises.\<close>

fun for_loop :: "world \<Rightarrow> nat list \<Rightarrow> event list \<Rightarrow> outcome" where
  "for_loop w [] tr = (tr, None)"
| "for_loop w (i # is) tr = and_then (loop_body w i tr) (for_loop w is)"

text \<open>The \<open>try\<close> block, lines 48 to 57.\<close>

definition try_block :: "world \<Rightarrow> event list \<Rightarrow> outcome" where
  "try_block w tr =
     and_then (call w PrintConnecting (Printed (''Connecting to '' @ BROKER_ADDRESS @ ''...'')) tr) (\<lambda>tr.
     and_then (call w Connect (Called_connect BROKER_ADDRESS PORT 60) tr) (\<lambda>tr.
     and_then (call w LoopStart Called_loop_start tr) (\<lambda>tr.
     for_loop w [0..<nat TOTAL_STEPS] tr)))"

text \<open>\<open>except KeyboardInterrupt\<close>: only that exception enters the handler.\<close>

definition except_clause :: "world \<Rightarrow> outcome \<Rightarrow> outcome" where
  "except_clause w r =
     (case r of
        (tr, Some KeyboardInterrupt) \<Rightarrow> call w PrintStopping (Printed (CHR 0x0A # ''Stopping...'')) tr
      | _ \<Rightarrow> r)"

text \<open>
  \<open>finally\<close>: the block runs whatever came out of the \<open>try\<close> statement; an exception
  of the block itself replaces a pending one, otherwise the pending one propagates.
\<close>

definition finally_clause :: "world \<Rightarrow> outcome \<Rightarrow> outcome" where
  "finally_clause w r =
     (case and_then (call w LoopStop Called_loop_stop (fst r)) (call w Disconnect Called_disconnect) of
        (tr, None) \<Rightarrow> (tr, snd r)
      | (tr, Some e) \<Rightarrow> (tr, Some e))"

definition run_simulation :: "world \<Rightarrow> outcome" where
  "run_simulation w = finally_clause w (except_clause w (try_block w []))"

section \<open>Observations on a run\<close>

fun is_publish :: "event \<Rightarrow> bool" where
  "is_publish (Called_publish t p q) = True"
| "is_publish _ = False"

fun is_teardown :: "event \<Rightarrow> bool" where
  "is_teardown Called_loop_stop = True"
| "is_teardown Called_disconnect = True"
| "is_teardown _ = False"

definition iteration_events :: "world \<Rightarrow> nat \<Rightarrow> event list" where
  "iteration_events w i =
     [Called_publish TOPIC (json_dumps (reading_at w i)) 1,
      Printed (progress_line i (reading_at w i)),
      Slept INTERVAL]"

definition iteration_returns :: "world \<Rightarrow> nat \<Rightarrow> bool" where
  "iteration_returns w i \<longleftrightarrow>
     raises w (Generate i) = None \<and> raises w (Publish i) = None \<and>
     raises w (PrintProgress i) = None \<and> raises w (Sleep i) = None"

fun try_event :: "event \<Rightarrow> bool" where
  "try_event (Called_publish t p q) = (t = TOPIC \<and> q = 1)"
| "try_event Called_loop_stop = False"
| "try_event Called_disconnect = False"
| "try_event _ = True"

definition setup_events :: "event list" where
  "setup_events =
     [Printed (''Connecting to '' @ BROKER_ADDRESS @ ''...''),
      Called_connect BROKER_ADDRESS PORT 60,
      Called_loop_start]"

definition setup_returns :: "world \<Rightarrow> bool" where
  "setup_returns w \<longleftrightarrow>
     raises w PrintConnecting = None \<and> raises w Connect = None \<and> raises w LoopStart = None"

fun publish_topic :: "event \<Rightarrow> string" where
  "publish_topic (Called_publish t p q) = t"
| "publish_topic _ = []"

fun publish_qos :: "event \<Rightarrow> int" where
  "publish_qos (Called_publish t p q) = q"
| "publish_qos _ = 0"

fun publish_payload :: "event \<Rightarrow> string" where
  "publish_payload (Called_publish t p q) = p"
| "publish_payload _ = []"

definition noon :: datetime where
  "noon = \<lparr>dt_year = 2026, dt_month = 11, dt_day = 3, dt_hour = 12, dt_minute = 0,
            dt_second = 0, dt_microsecond = 0\<rparr>"

definition calm :: world where
  "calm = \<lparr>raises = (\<lambda>c. None), utcnow = (\<lambda>i. noon), random = (\<lambda>i j. 0)\<rparr>"

definition refused :: world where
  "refused = calm\<lparr>raises := (\<lambda>c. if c = Connect then Some (Error ''ConnectionRefusedError'') else None)\<rparr>"

definition publish_fails :: world where
  "publish_fails = calm\<lparr>raises := (\<lambda>c. if c = Publish 0 then Some (Error ''ValueError'') else None)\<rparr>"

definition interrupted :: world where
  "interrupted = calm\<lparr>raises := (\<lambda>c. if c = Sleep 0 then Some KeyboardInterrupt else None)\<rparr>"


definition published :: "event list \<Rightarrow> string list" where
  "published tr = map publish_payload (filter is_publish tr)"

fun dict_path :: "pyval \<Rightarrow> string list \<Rightarrow> pyval option" where
  "dict_path v [] = Some v"
| "dict_path v (k # ks) = (case dict_get v k of None \<Rightarrow> None | Some u \<Rightarrow> dict_path u ks)"

fun is_number :: "pyval \<Rightarrow> bool" where
  "is_number (PInt i) = True"
| "is_number (PFloat x) = True"
| "is_number _ = False"

definition numeric_at :: "pyval \<Rightarrow> string list \<Rightarrow> bool" where
  "numeric_at v p = (case dict_path v p of Some u \<Rightarrow> is_number u | None \<Rightarrow> False)"

definition recharging :: world where
  "recharging = calm\<lparr>random := (\<lambda>i j. if i = 0 then 1 / 2 else 0)\<rparr>"

text \<open>
  The calls of iteration \<open>i\<close> of the loop body, in order; the calls made before a given
  one; and the events of the iteration up to and including a given call. In iteration
  \<open>i\<close> the call at \<open>c\<close> is the first to raise, with \<open>e\<close>, when the calls before it
  return and it raises \<open>e\<close>.
\<close>

definition loop_sites :: "nat \<Rightarrow> call_site list" where
  "loop_sites i = [Generate i, Publish i, PrintProgress i, Sleep i]"

fun sites_before :: "call_site \<Rightarrow> call_site list" where
  "sites_before (Publish i) = [Generate i]"
| "sites_before (PrintProgress i) = [Generate i, Publish i]"
| "sites_before (Sleep i) = [Generate i, Publish i, PrintProgress i]"
| "sites_before _ = []"

fun site_events :: "world \<Rightarrow> call_site \<Rightarrow> event list" where
  "site_events w (Publish i) = take 1 (iteration_events w i)"
| "site_events w (PrintProgress i) = take 2 (iteration_events w i)"
| "site_events w (Sleep i) = iteration_events w i"
| "site_events w _ = []"

definition first_raise :: "world \<Rightarrow> nat \<Rightarrow> call_site \<Rightarrow> exn \<Rightarrow> bool" where
  "first_raise w i c e \<longleftrightarrow>
     c \<in> set (loop_sites i) \<and> list_all (\<lambda>b. raises w b = None) (sites_before c) \<and>
     raises w c = Some e"

definition interrupted_twice :: world where
  "interrupted_twice =
     calm\<lparr>raises := (\<lambda>c. if c = Sleep 0 \<or> c = LoopStop then Some KeyboardInterrupt else None)\<rparr>"

definition sleep_fails :: world where
  "sleep_fails = calm\<lparr>raises := (\<lambda>c. if c = Sleep 1 then Some (Error ''OSError'') else None)\<rparr>"

section \<open>Decimal rounding and jitter bounds of a reading\<close>

text \<open>
  \<open>nearest_decimal n v\<close> is the decimal with \<open>n\<close> digits after the point nearest to the
  float \<open>v\<close>. A float is rounded to \<open>n\<close> decimal places when it is the float nearest to
  a decimal with \<open>n\<close> digits after the point, which is then the decimal nearest to it:
  the float prints with at most \<open>n\<close> digits after the point. A value lies within \<open>bound\<close>
  of \<open>base\<close> when the exact distance of the two floats is at most \<open>bound\<close>.
\<close>

definition nearest_decimal :: "nat \<Rightarrow> double \<Rightarrow> rat" where
  "nearest_decimal n v = of_int (round_half_even (v * 10 ^ n)) / 10 ^ n"

definition rounded_to :: "nat \<Rightarrow> double \<Rightarrow> bool" where
  "rounded_to n v \<longleftrightarrow> fl (nearest_decimal n v) = v"

definition within_bound :: "double \<Rightarrow> double \<Rightarrow> double \<Rightarrow> bool" where
  "within_bound base bound v \<longleftrightarrow> \<bar>v - base\<bar> \<le> bound"

section \<open>\<open>json.loads\<close>\<close>

text \<open>
  The decoder of CPython's \<open>json\<close> module with its defaults, on a text given as the list
  of its characters: a function takes what is left of the text and returns the value
  read with the rest, or \<open>None\<close> where the decoder raises \<open>JSONDecodeError\<close>. Two results
  have no counterpart in \<^typ>\<open>pyval\<close> and are \<open>None\<close> here as well: a string escape
  \<open>\uXXXX\<close> of a code point above 255, and the constants \<open>NaN\<close>, \<open>Infinity\<close> and
  \<open>-Infinity\<close>.
\<close>

definition is_ws :: "char \<Rightarrow> bool" where
  "is_ws c \<longleftrightarrow> c = CHR '' '' \<or> c = CHR 0x09 \<or> c = CHR 0x0A \<or> c = CHR 0x0D"

definition skip_ws :: "string \<Rightarrow> string" where
  "skip_ws s = dropWhile is_ws s"

definition is_digit :: "char \<Rightarrow> bool" where
  "is_digit c \<longleftrightarrow> 48 \<le> (of_char c :: nat) \<and> (of_char c :: nat) \<le> 57"

definition digit_val :: "char \<Rightarrow> int" where
  "digit_val c = int (of_char c) - 48"

definition digits_value :: "string \<Rightarrow> int" where
  "digits_value ds = foldl (\<lambda>a c. a * 10 + digit_val c) 0 ds"

definition hex_val :: "char \<Rightarrow> nat option" where
  "hex_val c =
     (let n = (of_char c :: nat)
      in if 48 \<le> n \<and> n \<le> 57 then Some (n - 48)
         else if 97 \<le> n \<and> n \<le> 102 then Some (n - 87)
         else if 65 \<le> n \<and> n \<le> 70 then Some (n - 55)
         else None)"

definition hex4 :: "char \<Rightarrow> char \<Rightarrow> char \<Rightarrow> char \<Rightarrow> nat option" where
  "hex4 a b c d =
     (case (hex_val a, hex_val b, hex_val c, hex_val d) of
        (Some x, Some y, Some z, Some u) \<Rightarrow> Some (((x * 16 + y) * 16 + z) * 16 + u)
      | _ \<Rightarrow> None)"

definition unescape :: "char \<Rightarrow> char option" where
  "unescape e =
     (if e = CHR 0x22 then Some (CHR 0x22)
      else if e = CHR 0x5C then Some (CHR 0x5C)
      else if e = CHR ''/'' then Some (CHR ''/'')
      else if e = CHR ''b'' then Some (CHR 0x08)
      else if e = CHR ''f'' then Some (CHR 0x0C)
      else if e = CHR ''n'' then Some (CHR 0x0A)
      else if e = CHR ''r'' then Some (CHR 0x0D)
      else if e = CHR ''t'' then Some (CHR 0x09)
      else None)"

text \<open>
  \<open>scanstring\<close> reads a string literal after its opening quote, up to the closing quote.
  A raw control character is an error (\<open>strict=True\<close>).
\<close>

fun scanstring :: "string \<Rightarrow> (string \<times> string) option" where
  "scanstring [] = None"
| "scanstring (c # cs) =
     (if c = CHR 0x22 then Some ([], cs)
      else if c = CHR 0x5C then
        (case cs of
           [] \<Rightarrow> None
         | e # r \<Rightarrow>
            if e = CHR ''u'' then
              (case r of
                 h1 # h2 # h3 # h4 # r' \<Rightarrow>
                   (case hex4 h1 h2 h3 h4 of
                      None \<Rightarrow> None
                    | Some n \<Rightarrow>
                       if n < 256 then map_option (apfst ((#) (char_of n))) (scanstring r')
                       else None)
               | _ \<Rightarrow> None)
            else
              (case unescape e of
                 None \<Rightarrow> None
               | Some ch \<Rightarrow> map_option (apfst ((#) ch)) (scanstring r)))
      else if (of_char c :: nat) < 32 then None
      else map_option (apfst ((#) c)) (scanstring cs))"

text \<open>
  A number is matched by \<open>(-?(?:0|[1-9][0-9]*))(\.[0-9]+)?([eE][-+]?[0-9]+)?\<close>. With a
  fraction or an exponent it is read by \<open>float\<close>, which rounds the decimal to the nearest
  float; otherwise by \<open>int\<close>.
\<close>

definition match_fraction :: "string \<Rightarrow> string option \<times> string" where
  "match_fraction s =
     (case s of
        p # q # r \<Rightarrow>
          if p = CHR ''.'' \<and> is_digit q
          then (Some (takeWhile is_digit (q # r)), dropWhile is_digit (q # r))
          else (None, s)
      | _ \<Rightarrow> (None, s))"

definition match_exponent :: "string \<Rightarrow> int option \<times> string" where
  "match_exponent s =
     (case s of
        x # r \<Rightarrow>
          if x = CHR ''e'' \<or> x = CHR ''E'' then
            (let (sg, r1) =
                   (case r of
                      y # r' \<Rightarrow>
                        if y = CHR ''-'' then (- 1, r')
                        else if y = CHR ''+'' then (1, r')
                        else (1, r)
                    | [] \<Rightarrow> (1 :: int, r))
             in case r1 of
                  d # r2 \<Rightarrow>
                    if is_digit d
                    then (Some (sg * digits_value (takeWhile is_digit r1)), dropWhile is_digit r1)
                    else (None, s)
                | [] \<Rightarrow> (None, s))
          else (None, s)
      | [] \<Rightarrow> (None, s))"

definition match_number :: "string \<Rightarrow> (pyval \<times> string) option" where
  "match_number s =
     (let (sg, s1) =
            (case s of
               c # cs \<Rightarrow> if c = CHR ''-'' then (- 1 :: int, cs) else (1, s)
             | [] \<Rightarrow> (1, s))
      in case s1 of
           [] \<Rightarrow> None
         | d # ds \<Rightarrow>
            if \<not> is_digit d then None
            else
              let (ip, s2) =
                    (if d = CHR ''0'' then ([d], ds)
                     else (takeWhile is_digit s1, dropWhile is_digit s1));
                  (fp, s3) = match_fraction s2;
                  (ep, s4) = match_exponent s3
              in if fp = None \<and> ep = None then Some (PInt (sg * digits_value ip), s4)
                 else
                   Some (PFloat
                     (fl (of_int sg
                          * (of_int (digits_value ip)
                             + (case fp of
                                  None \<Rightarrow> 0
                                | Some f \<Rightarrow> of_int (digits_value f) / 10 ^ length f))
                          * 10 powi (case ep of None \<Rightarrow> 0 | Some e \<Rightarrow> e))), s4))"

text \<open>
  \<open>dict(pairs)\<close>: a repeated key keeps its first position and takes the last value.
\<close>

fun dict_set :: "(string \<times> pyval) list \<Rightarrow> string \<Rightarrow> pyval \<Rightarrow> (string \<times> pyval) list" where
  "dict_set [] k v = [(k, v)]"
| "dict_set (p # ps) k v = (if fst p = k then (k, v) # ps else p # dict_set ps k v)"

definition dict_of :: "(string \<times> pyval) list \<Rightarrow> (string \<times> pyval) list" where
  "dict_of pairs = foldl (\<lambda>d kv. dict_set d (fst kv) (snd kv)) [] pairs"

text \<open>
  \<open>scan_once\<close> reads one value; \<open>object_members\<close> is the loop of \<open>JSONObject\<close>, entered
  after the opening quote of a key, and \<open>array_items\<close> the loop of \<open>JSONArray\<close>. The
  first argument bounds the number of nested calls; every call is made after at least
  one more character has been read, so the length of the text is enough.
\<close>

fun scan_once :: "nat \<Rightarrow> string \<Rightarrow> (pyval \<times> string) option"
  and object_members :: "nat \<Rightarrow> (string \<times> pyval) list \<Rightarrow> string \<Rightarrow> (pyval \<times> string) option"
  and array_items :: "nat \<Rightarrow> pyval list \<Rightarrow> string \<Rightarrow> (pyval \<times> string) option"
where
  "scan_once 0 s = None"
| "scan_once (Suc f) s =
     (case s of
        [] \<Rightarrow> None
      | c # cs \<Rightarrow>
         if c = CHR 0x22 then map_option (apfst PStr) (scanstring cs)
         else if c = CHR ''{'' then
           (case skip_ws cs of
              [] \<Rightarrow> None
            | q # r \<Rightarrow>
               if q = CHR ''}'' then Some (PDict [], r)
               else if q = CHR 0x22 then object_members f [] r
               else None)
         else if c = CHR ''['' then
           (case skip_ws cs of
              [] \<Rightarrow> None
            | q # r \<Rightarrow>
               if q = CHR '']'' then Some (PList [], r)
               else array_items f [] (q # r))
         else if take 4 s = ''null'' then Some (PNone, drop 4 s)
         else if take 4 s = ''true'' then Some (PBool True, drop 4 s)
         else if take 5 s = ''false'' then Some (PBool False, drop 5 s)
         else match_number s)"
| "object_members 0 acc s = None"
| "object_members (Suc f) acc s =
     (case scanstring s of
        None \<Rightarrow> None
      | Some (key, s1) \<Rightarrow>
         (case skip_ws s1 of
            [] \<Rightarrow> None
          | c # s2 \<Rightarrow>
             if c \<noteq> CHR '':'' then None
             else
               (case scan_once f (skip_ws s2) of
                  None \<Rightarrow> None
                | Some (v, s3) \<Rightarrow>
                   (case skip_ws s3 of
                      [] \<Rightarrow> None
                    | d # s4 \<Rightarrow>
                       if d = CHR ''}'' then Some (PDict (dict_of (acc @ [(key, v)])), s4)
                       else if d = CHR '','' then
                         (case skip_ws s4 of
                            [] \<Rightarrow> None
                          | q # s5 \<Rightarrow>
                             if q = CHR 0x22 then object_members f (acc @ [(key, v)]) s5
                             else None)
                       else None))))"
| "array_items 0 acc s = None"
| "array_items (Suc f) acc s =
     (case scan_once f s of
        None \<Rightarrow> None
      | Some (v, s1) \<Rightarrow>
         (case skip_ws s1 of
            [] \<Rightarrow> None
          | d # s2 \<Rightarrow>
             if d = CHR '']'' then Some (PList (acc @ [v]), s2)
             else if d = CHR '','' then array_items f (acc @ [v]) (skip_ws s2)
             else None))"

text \<open>\<open>json.loads\<close>: one value between optional whitespace, and nothing after it.\<close>

definition json_loads :: "string \<Rightarrow> pyval option" where
  "json_loads s =
     (case scan_once (Suc (length s)) (skip_ws s) of
        None \<Rightarrow> None
      | Some (v, rest) \<Rightarrow> if skip_ws rest = [] then Some v else None)"

text \<open>
  The characters \<open>json.dumps\<close> writes as they are inside a string literal: printable
  ASCII other than the quote and the backslash.
\<close>

definition plain_char :: "char \<Rightarrow> bool" where
  "plain_char c \<longleftrightarrow>
     32 \<le> (of_char c :: nat) \<and> (of_char c :: nat) \<le> 126 \<and> c \<noteq> CHR 0x22 \<and> c \<noteq> CHR 0x5C"

section \<open>Rounding to the nearest float\<close>

lemma round_half_even_near: "\<bar>of_int (round_half_even y) - y\<bar> \<le> 1 / 2"
proof -
  have "of_int \<lfloor>y\<rfloor> \<le> y" "y < of_int \<lfloor>y\<rfloor> + 1"
    by linarith+
  then show ?thesis
    unfolding round_half_even_def Let_def by (auto simp: abs_le_iff)
qed

lemma round_half_even_unique:
  assumes "\<bar>y - of_int m\<bar> < 1 / 2"
  shows "round_half_even y = m"
proof -
  have "\<bar>of_int (round_half_even y) - (of_int m :: rat)\<bar> < 1"
    using round_half_even_near [of y] assms by linarith
  then have "\<bar>(of_int (round_half_even y - m) :: rat)\<bar> < 1" by simp
  then have "\<bar>round_half_even y - m\<bar> < 1"
    by (metis of_int_abs of_int_less_1_iff)
  then show ?thesis by linarith
qed

lemma round_half_even_of_int [simp]: "round_half_even (of_int m) = m"
  by (rule round_half_even_unique) simp

lemma quotient_scale_bounds:
  fixes B :: rat
  assumes B: "0 < B"
    and P: "B ^ bp \<le> of_int p" "of_int p < B ^ Suc bp"
    and Q: "B ^ bq \<le> of_int q" "of_int q < B ^ Suc bq"
  shows "B powi (int bp - int bq - 1) < of_int p / of_int q \<and>
         of_int p / of_int q < B powi (int bp - int bq + 1)"
proof -
  have pos: "0 < B ^ bp" "0 < B ^ bq" using B by simp_all
  with P Q have p: "(0::rat) < of_int p" and q: "(0::rat) < of_int q" by linarith+
  have up: "of_int p / of_int q < B ^ Suc bp / B ^ bq"
    using p P Q pos by (intro frac_less) simp_all
  have lo: "B ^ bp / B ^ Suc bq < of_int p / of_int q"
    using q P Q pos by (intro frac_less2) simp_all
  have "int bp - int bq + 1 = int (Suc bp) - int bq"
    by simp
  then have "B powi (int bp - int bq + 1) = B powi (int (Suc bp) - int bq)"
    by (simp only:)
  also have "\<dots> = B powi int (Suc bp) / B powi int bq"
    using B by (intro power_int_diff) simp
  also have "\<dots> = B ^ Suc bp / B ^ bq"
    by (simp only: power_int_of_nat)
  finally have e1: "B powi (int bp - int bq + 1) = B ^ Suc bp / B ^ bq" .
  have "int bp - int bq - 1 = int bp - int (Suc bq)"
    by simp
  then have "B powi (int bp - int bq - 1) = B powi (int bp - int (Suc bq))"
    by (simp only:)
  also have "\<dots> = B powi int bp / B powi int (Suc bq)"
    using B by (intro power_int_diff) simp
  also have "\<dots> = B ^ bp / B ^ Suc bq"
    by (simp only: power_int_of_nat)
  finally have e2: "B powi (int bp - int bq - 1) = B ^ bp / B ^ Suc bq" .
  from up lo show ?thesis unfolding e1 e2 by simp
qed

lemma binade_bounds:
  assumes "x \<noteq> 0"
  shows "2 powi binade x \<le> \<bar>x\<bar> \<and> \<bar>x\<bar> < 2 powi (binade x + 1)"
proof -
  define a where "a = \<bar>x\<bar>"
  obtain p q where pq: "quotient_of a = (p, q)" by (cases "quotient_of a")
  have a: "0 < a" using assms by (simp add: a_def)
  have q: "0 < q" using quotient_of_denom_pos [OF pq] .
  have aeq: "a = of_int p / of_int q" using quotient_of_div [OF pq] .
  have p: "0 < p" using a q by (simp add: aeq zero_less_divide_iff)
  define bp where "bp = nat (bitlen p - 1)"
  define bq where "bq = nat (bitlen q - 1)"
  have "bitlen p \<noteq> 0" "bitlen q \<noteq> 0" using p q by (simp_all add: bitlen_eq_zero_iff)
  then have lens: "bitlen p = int bp + 1" "bitlen q = int bq + 1"
    using bitlen_nonneg [of p] bitlen_nonneg [of q] by (simp_all add: bp_def bq_def)
  have n: "nat (bitlen p) = Suc bp" "nat (bitlen p - 1) = bp"
    "nat (bitlen q) = Suc bq" "nat (bitlen q - 1) = bq"
    using lens by simp_all
  have "2 ^ bp \<le> p \<and> p < 2 ^ Suc bp" "2 ^ bq \<le> q \<and> q < 2 ^ Suc bq"
    using bitlen_bounds [OF p] bitlen_bounds [OF q] unfolding n by blast+
  then have P: "(2::rat) ^ bp \<le> of_int p" "of_int p < (2::rat) ^ Suc bp"
    and Q: "(2::rat) ^ bq \<le> of_int q" "of_int q < (2::rat) ^ Suc bq"
    by (metis of_int_le_iff of_int_less_iff of_int_numeral of_int_power)+
  have s: "2 powi (int bp - int bq - 1) < a \<and> a < 2 powi (int bp - int bq + 1)"
    unfolding aeq using P Q by (intro quotient_scale_bounds) simp_all
  have b: "binade x = (if 2 powi (int bp - int bq) \<le> a then int bp - int bq
                       else int bp - int bq - 1)"
    by (simp add: binade_def a_def [symmetric] pq lens)
  show ?thesis
  proof (cases "2 powi (int bp - int bq) \<le> a")
    case True
    with b s show ?thesis by (simp add: a_def)
  next
    case False
    with b s show ?thesis by (simp add: a_def)
  qed
qed

lemma binade_unique:
  assumes "2 powi e \<le> \<bar>x\<bar>" and "\<bar>x\<bar> < 2 powi (e + 1)"
  shows "binade x = e"
proof -
  have "(0::rat) < 2 powi e" by simp
  with assms(1) have "0 < \<bar>x\<bar>" by linarith
  then have "x \<noteq> 0" by simp
  note b = binade_bounds [OF this]
  have "\<not> e < binade x"
  proof
    assume "e < binade x"
    then have "(2::rat) powi (e + 1) \<le> 2 powi binade x"
      by (intro power_int_increasing) simp_all
    with b assms show False by linarith
  qed
  moreover have "\<not> binade x < e"
  proof
    assume "binade x < e"
    then have "(2::rat) powi (binade x + 1) \<le> 2 powi e"
      by (intro power_int_increasing) simp_all
    with b assms show False by linarith
  qed
  ultimately show ?thesis by linarith
qed

lemma fl_zero [simp]: "fl 0 = 0"
  by (simp add: fl_def)

lemma fl_normal:
  assumes "2 powi e \<le> \<bar>x\<bar>" and "\<bar>x\<bar> < 2 powi (e + 1)" and "- 1022 \<le> e"
  shows "fl x = of_int (round_half_even (x / 2 powi (e - 52))) * 2 powi (e - 52)"
proof -
  have "(0::rat) < 2 powi e" by simp
  with assms(1) have "0 < \<bar>x\<bar>" by linarith
  then have "x \<noteq> 0" by simp
  moreover have "max (binade x - 52) (- 1074) = e - 52"
    using binade_unique [OF assms(1,2)] assms(3) by simp
  ultimately show ?thesis by (simp add: fl_def Let_def)
qed

lemma fl_certificate:
  assumes "2 powi e \<le> \<bar>x\<bar>" and "\<bar>x\<bar> < 2 powi (e + 1)" and "- 1022 \<le> e"
    and "\<bar>x / 2 powi (e - 52) - of_int m\<bar> < 1 / 2"
  shows "fl x = of_int m * 2 powi (e - 52)"
  using fl_normal [OF assms(1-3)] round_half_even_unique [OF assms(4)] by simp

lemma fl_error:
  assumes "\<bar>x\<bar> < 2 powi k" and "- 1021 \<le> k"
  shows "\<bar>fl x - x\<bar> \<le> 2 powi (k - 54)"
proof (cases "x = 0")
  case True
  then show ?thesis by simp
next
  case False
  define q where "q = max (binade x - 52) (- 1074)"
  have "\<not> k \<le> binade x"
  proof
    assume "k \<le> binade x"
    then have "(2::rat) powi k \<le> 2 powi binade x"
      by (intro power_int_increasing) simp_all
    with binade_bounds [OF False] assms(1) show False by linarith
  qed
  with assms(2) have q: "q \<le> k - 53" by (simp add: q_def)
  have pos: "(0::rat) < 2 powi q" by simp
  have "fl x - x = (of_int (round_half_even (x / 2 powi q)) - x / 2 powi q) * 2 powi q"
    using False pos by (simp add: fl_def q_def [symmetric] Let_def algebra_simps)
  then have "\<bar>fl x - x\<bar> = \<bar>of_int (round_half_even (x / 2 powi q)) - x / 2 powi q\<bar> * 2 powi q"
    using pos by (simp add: abs_mult)
  also have "\<dots> \<le> 1 / 2 * 2 powi q"
    using round_half_even_near [of "x / 2 powi q"] pos by (intro mult_right_mono) simp_all
  also have "\<dots> = 2 powi (q - 1)"
    using power_int_diff [of "2::rat" q 1] by simp
  also have "\<dots> \<le> 2 powi (k - 54)"
    using q by (intro power_int_increasing) simp_all
  finally show ?thesis .
qed

lemma round_half_even_between:
  assumes "of_int lo - 1 / 2 < y" and "y < of_int hi + 1 / 2"
  shows "lo \<le> round_half_even y \<and> round_half_even y \<le> hi"
proof -
  have "(of_int lo :: rat) - 1 < of_int (round_half_even y)"
    and "(of_int (round_half_even y) :: rat) < of_int hi + 1"
    using round_half_even_near [of y] assms by linarith+
  then have "lo - 1 < round_half_even y" and "round_half_even y < hi + 1"
    by (metis of_int_1 of_int_diff of_int_less_iff, metis of_int_1 of_int_add of_int_less_iff)
  then show ?thesis by linarith
qed

lemma fl_between:
  assumes "lo \<le> x" and "x \<le> hi" and "- (2 powi k) < lo" and "hi < 2 powi k" and "- 1021 \<le> k"
  shows "lo - 2 powi (k - 54) \<le> fl x \<and> fl x \<le> hi + 2 powi (k - 54)"
proof -
  have "\<bar>x\<bar> < 2 powi k" using assms by linarith
  from fl_error [OF this assms(5)] assms(1,2) show ?thesis by linarith
qed

lemma uniform_range:
  assumes "0 \<le> r" and "r < 1" and "0 \<le> a"
    and "E = 2 powi (k - 54)" and "E \<le> 2 * a" and "2 * a + 2 * E < 2 powi k" and "- 1021 \<le> k"
  shows "- a - 2 * E \<le> uniform (- a) a r \<and> uniform (- a) a r \<le> a + 3 * E"
proof -
  define t1 where "t1 = fl (a - - a)"
  define p where "p = t1 * r"
  define t2 where "t2 = fl p"
  have E: "0 < E" using assms(4) by simp
  have "2 * a - 2 powi (k - 54) \<le> t1 \<and> t1 \<le> 2 * a + 2 powi (k - 54)"
    unfolding t1_def using assms E by (intro fl_between) linarith+
  then have t1: "2 * a - E \<le> t1 \<and> t1 \<le> 2 * a + E"
    using assms(4) by simp
  have p: "0 \<le> p" "p \<le> t1"
    using t1 assms by (simp_all add: p_def mult_left_le)
  have "0 - 2 powi (k - 54) \<le> t2 \<and> t2 \<le> t1 + 2 powi (k - 54)"
    unfolding t2_def using p t1 assms E by (intro fl_between) linarith+
  then have t2: "- E \<le> t2 \<and> t2 \<le> 2 * a + 2 * E"
    using assms(4) t1 by linarith
  have "- a - E - 2 powi (k - 54) \<le> fl (- a + t2) \<and> fl (- a + t2) \<le> a + 2 * E + 2 powi (k - 54)"
    using t2 assms E by (intro fl_between) linarith+
  then have "- a - 2 * E \<le> fl (- a + t2) \<and> fl (- a + t2) \<le> a + 3 * E"
    using assms(4) by linarith
  then show ?thesis
    by (simp add: uniform_def t1_def t2_def p_def)
qed

lemma jitter_001_bounds:
  "1 / 1000 - 1 / 2 ^ 63 \<le> fl (1 / 1000) \<and> fl (1 / 1000) \<le> 1 / 1000 + 1 / 2 ^ 63"
proof -
  have "1 / 1000 - 2 powi (- 9 - 54) \<le> fl (1 / 1000) \<and> fl (1 / 1000) \<le> 1 / 1000 + 2 powi (- 9 - 54)"
    by (rule fl_between) simp_all
  then show ?thesis by simp
qed

lemma uniform_jitter_range:
  assumes "0 \<le> r" and "r < 1"
  shows "- (1 / 1000) - 1 / 2 ^ 60 \<le> uniform (- fl (1 / 1000)) (fl (1 / 1000)) r \<and>
         uniform (- fl (1 / 1000)) (fl (1 / 1000)) r \<le> 1 / 1000 + 1 / 2 ^ 60"
proof -
  note a = jitter_001_bounds
  have "- fl (1 / 1000) - 2 * (1 / 2 ^ 62) \<le> uniform (- fl (1 / 1000)) (fl (1 / 1000)) r \<and>
        uniform (- fl (1 / 1000)) (fl (1 / 1000)) r \<le> fl (1 / 1000) + 3 * (1 / 2 ^ 62)"
    using assms a by (intro uniform_range [where k = "- 8"]) simp_all
  with a show ?thesis by simp
qed

lemma lat_range:
  assumes "0 \<le> r" and "r < 1"
  shows "13511 \<le> round_half_even (fl (fl (13521 / 10000) + uniform (- fl (1 / 1000)) (fl (1 / 1000)) r) * 10 ^ 4) \<and>
         round_half_even (fl (fl (13521 / 10000) + uniform (- fl (1 / 1000)) (fl (1 / 1000)) r) * 10 ^ 4) \<le> 13531"
proof -
  define u where "u = uniform (- fl (1 / 1000)) (fl (1 / 1000)) r"
  define b where "b = fl (13521 / 10000)"
  define x where "x = fl (b + u)"
  note u = uniform_jitter_range [OF assms, folded u_def]
  have "13521 / 10000 - 2 powi (1 - 54) \<le> b \<and> b \<le> 13521 / 10000 + 2 powi (1 - 54)"
    unfolding b_def by (rule fl_between) simp_all
  then have b: "13521 / 10000 - 1 / 2 ^ 53 \<le> b \<and> b \<le> 13521 / 10000 + 1 / 2 ^ 53"
    by simp
  have "13511 / 10000 - 1 / 2 ^ 52 - 2 powi (1 - 54) \<le> x \<and> x \<le> 13531 / 10000 + 1 / 2 ^ 52 + 2 powi (1 - 54)"
    unfolding x_def using u b by (intro fl_between) simp_all
  then have "of_int 13511 - 1 / 2 < x * 10 ^ 4 \<and> x * 10 ^ 4 < of_int 13531 + 1 / 2"
    by simp
  then have "13511 \<le> round_half_even (x * 10 ^ 4) \<and> round_half_even (x * 10 ^ 4) \<le> 13531"
    by (intro round_half_even_between) simp_all
  then show ?thesis
    by (simp only: x_def b_def u_def)
qed

text \<open>The floats of the constants of the script, and of the values it reaches when every draw is 0.\<close>

lemma fl_jitter: "fl (1 / 1000) = 1152921504606847 / 1152921504606846976"
  using fl_certificate [of "- 10" "1 / 1000" 4611686018427388] by simp

lemma fl_neg_jitter: "fl (- (1152921504606847 / 1152921504606846976)) = - (1152921504606847 / 1152921504606846976)"
  using fl_certificate [of "- 10" "- (1152921504606847 / 1152921504606846976)" "- 4611686018427388"] by simp

lemma fl_lat_base: "fl (13521 / 10000) = 190291158005239 / 140737488355328"
  using fl_certificate [of 0 "13521 / 10000" 6089317056167648] by simp

lemma fl_lon_base: "fl (1038198 / 10000) = 7305668946776241 / 70368744177664"
  using fl_certificate [of 6 "1038198 / 10000" 7305668946776241] by simp

lemma fl_temp_base: "fl (42 / 10) = 4728779608739021 / 1125899906842624"
  using fl_certificate [of 2 "42 / 10" 4728779608739021] by simp

lemma fl_half: "fl (5 / 10) = 1 / 2"
  using fl_certificate [of "- 1" "5 / 10" 4503599627370496] by simp

lemma fl_neg_half: "fl (- (1 / 2)) = - (1 / 2)"
  using fl_certificate [of "- 1" "- (1 / 2)" "- 4503599627370496"] by simp

lemma fl_lat_low: "fl (1557712244874311041 / 1152921504606846976) = 3042406728270139 / 2251799813685248"
  using fl_certificate [of 0 "1557712244874311041 / 1152921504606846976" 6084813456540278] by simp

lemma fl_lon_low: "fl (119694927102477325697 / 1152921504606846976) = 7305598578032063 / 70368744177664"
  using fl_certificate [of 6 "119694927102477325697 / 1152921504606846976" 7305598578032063] by simp

lemma fl_temp_low: "fl (4165829655317709 / 1125899906842624) = 4165829655317709 / 1125899906842624"
  using fl_certificate [of 1 "4165829655317709 / 1125899906842624" 8331659310635418] by simp

lemma fl_13511: "fl (13511 / 10000) = 6084813456540277 / 4503599627370496"
  using fl_certificate [of 0 "13511 / 10000" 6084813456540277] by simp

lemma fl_1038188: "fl (1038188 / 10000) = 7305598578032063 / 70368744177664"
  using fl_certificate [of 6 "1038188 / 10000" 7305598578032063] by simp

lemma fl_37: "fl (37 / 10) = 4165829655317709 / 1125899906842624"
  using fl_certificate [of 1 "37 / 10" 8331659310635418] by simp

lemma fl_47: "fl (47 / 10) = 5291729562160333 / 1125899906842624"
  using fl_certificate [of 2 "47 / 10" 5291729562160333] by simp

lemma fl_int_1: "fl 1 = 1"
  using fl_certificate [of 0 "1" 4503599627370496] by simp

lemma fl_int_85: "fl 85 = 85"
  using fl_certificate [of 6 "85" 5981343255101440] by simp

lemma fl_int_86: "fl 86 = 86"
  using fl_certificate [of 6 "86" 6051711999279104] by simp

lemma fl_int_87: "fl 87 = 87"
  using fl_certificate [of 6 "87" 6122080743456768] by simp


lemma lon_range:
  assumes "0 \<le> r" and "r < 1"
  shows "1038188 \<le> round_half_even (fl (fl (1038198 / 10000) + uniform (- fl (1 / 1000)) (fl (1 / 1000)) r) * 10 ^ 4) \<and>
         round_half_even (fl (fl (1038198 / 10000) + uniform (- fl (1 / 1000)) (fl (1 / 1000)) r) * 10 ^ 4) \<le> 1038208"
proof -
  define u where "u = uniform (- fl (1 / 1000)) (fl (1 / 1000)) r"
  define b where "b = fl (1038198 / 10000)"
  define x where "x = fl (b + u)"
  note u = uniform_jitter_range [OF assms, folded u_def]
  have "1038198 / 10000 - 2 powi (7 - 54) \<le> b \<and> b \<le> 1038198 / 10000 + 2 powi (7 - 54)"
    unfolding b_def by (rule fl_between) simp_all
  then have b: "1038198 / 10000 - 1 / 2 ^ 47 \<le> b \<and> b \<le> 1038198 / 10000 + 1 / 2 ^ 47"
    by simp
  have "1038188 / 10000 - 1 / 2 ^ 46 - 2 powi (7 - 54) \<le> x \<and> x \<le> 1038208 / 10000 + 1 / 2 ^ 46 + 2 powi (7 - 54)"
    unfolding x_def using u b by (intro fl_between) simp_all
  then have "of_int 1038188 - 1 / 2 < x * 10 ^ 4 \<and> x * 10 ^ 4 < of_int 1038208 + 1 / 2"
    by simp
  then have "1038188 \<le> round_half_even (x * 10 ^ 4) \<and> round_half_even (x * 10 ^ 4) \<le> 1038208"
    by (intro round_half_even_between) simp_all
  then show ?thesis
    by (simp only: x_def b_def u_def)
qed

lemma uniform_half_range:
  assumes "0 \<le> r" and "r < 1"
  shows "- (1 / 2) - 1 / 2 ^ 51 \<le> uniform (- fl (5 / 10)) (fl (5 / 10)) r \<and>
         uniform (- fl (5 / 10)) (fl (5 / 10)) r \<le> 1 / 2 + 1 / 2 ^ 51"
proof -
  have "- (1 / 2) - 2 * (1 / 2 ^ 53) \<le> uniform (- (1 / 2)) (1 / 2) r \<and>
        uniform (- (1 / 2)) (1 / 2) r \<le> 1 / 2 + 3 * (1 / 2 ^ 53)"
    using assms by (intro uniform_range [where k = 1]) simp_all
  then show ?thesis unfolding fl_half by simp
qed

lemma temperature_range:
  assumes "0 \<le> r" and "r < 1"
  shows "37 \<le> round_half_even (fl (fl (42 / 10) + uniform (- fl (5 / 10)) (fl (5 / 10)) r) * 10 ^ 1) \<and>
         round_half_even (fl (fl (42 / 10) + uniform (- fl (5 / 10)) (fl (5 / 10)) r) * 10 ^ 1) \<le> 47"
proof -
  define u where "u = uniform (- fl (5 / 10)) (fl (5 / 10)) r"
  define b where "b = fl (42 / 10)"
  define x where "x = fl (b + u)"
  note u = uniform_half_range [OF assms, folded u_def]
  have "42 / 10 - 2 powi (3 - 54) \<le> b \<and> b \<le> 42 / 10 + 2 powi (3 - 54)"
    unfolding b_def by (rule fl_between) simp_all
  then have b: "42 / 10 - 1 / 2 ^ 51 \<le> b \<and> b \<le> 42 / 10 + 1 / 2 ^ 51"
    by simp
  have "37 / 10 - 1 / 2 ^ 50 - 2 powi (3 - 54) \<le> x \<and> x \<le> 47 / 10 + 1 / 2 ^ 50 + 2 powi (3 - 54)"
    unfolding x_def using u b by (intro fl_between) simp_all
  then have "of_int 37 - 1 / 2 < x * 10 ^ 1 \<and> x * 10 ^ 1 < of_int 47 + 1 / 2"
    by simp
  then have "37 \<le> round_half_even (x * 10 ^ 1) \<and> round_half_even (x * 10 ^ 1) \<le> 47"
    by (intro round_half_even_between) simp_all
  then show ?thesis
    by (simp only: x_def b_def u_def)
qed

lemma battery_range:
  assumes "0 \<le> r" and "r < 1"
  shows "850 \<le> round_half_even (fl (87 - fl (r * 2)) * 10 ^ 1) \<and>
         round_half_even (fl (87 - fl (r * 2)) * 10 ^ 1) \<le> 870"
proof -
  define t where "t = fl (r * 2)"
  define x where "x = fl (87 - t)"
  have "0 - 2 powi (2 - 54) \<le> t \<and> t \<le> 2 + 2 powi (2 - 54)"
    unfolding t_def using assms by (intro fl_between) simp_all
  then have t: "- (1 / 2 ^ 52) \<le> t \<and> t \<le> 2 + 1 / 2 ^ 52"
    by simp
  have "85 - 1 / 2 ^ 52 - 2 powi (7 - 54) \<le> x \<and> x \<le> 87 + 1 / 2 ^ 52 + 2 powi (7 - 54)"
    unfolding x_def using t by (intro fl_between) simp_all
  then have "of_int 850 - 1 / 2 < x * 10 ^ 1 \<and> x * 10 ^ 1 < of_int 870 + 1 / 2"
    by simp
  then have "850 \<le> round_half_even (x * 10 ^ 1) \<and> round_half_even (x * 10 ^ 1) \<le> 870"
    by (intro round_half_even_between) simp_all
  then show ?thesis
    by (simp only: x_def t_def)
qed

lemma decimal_float:
  assumes "\<bar>of_int j / 10 ^ n :: rat\<bar> < 2 powi k" and "- 1021 \<le> k"
    and "(10 ^ n :: rat) * 2 powi (k - 54) < 1 / 2"
  shows "round_half_even (fl (of_int j / 10 ^ n) * 10 ^ n) = j"
    and "\<bar>fl (of_int j / 10 ^ n) - of_int j / 10 ^ n\<bar> \<le> 2 powi (k - 54)"
proof -
  define D :: rat where "D = of_int j / 10 ^ n"
  have e: "\<bar>fl D - D\<bar> \<le> 2 powi (k - 54)"
    using fl_error [OF assms(1,2)] by (simp add: D_def)
  have "fl D * 10 ^ n - of_int j = (fl D - D) * 10 ^ n"
    by (simp add: D_def algebra_simps)
  then have "\<bar>fl D * 10 ^ n - of_int j\<bar> = \<bar>fl D - D\<bar> * 10 ^ n"
    by (simp add: abs_mult)
  also have "\<dots> \<le> 2 powi (k - 54) * 10 ^ n"
    using e by (intro mult_right_mono) simp_all
  finally have "\<bar>fl D * 10 ^ n - of_int j\<bar> < 1 / 2"
    using assms(3) by (simp add: mult.commute)
  then show "round_half_even (fl (of_int j / 10 ^ n) * 10 ^ n) = j"
    unfolding D_def by (rule round_half_even_unique)
  from e show "\<bar>fl (of_int j / 10 ^ n) - of_int j / 10 ^ n\<bar> \<le> 2 powi (k - 54)"
    by (simp add: D_def)
qed

section \<open>The numeric fields of a reading\<close>

lemma rounded_field:
  assumes v: "v = py_round x n"
    and j: "lo \<le> round_half_even (x * 10 ^ n)" "round_half_even (x * 10 ^ n) \<le> hi"
    and mag: "- (2 powi k) * 10 ^ n < (of_int lo :: rat)" "(of_int hi :: rat) < 2 powi k * 10 ^ n"
    and k: "- 1021 \<le> k" "(10 ^ n :: rat) * 2 powi (k - 54) < 1 / 2"
  shows "rounded_to n v"
    and "of_int lo / 10 ^ n \<le> nearest_decimal n v \<and> nearest_decimal n v \<le> of_int hi / 10 ^ n"
    and "nearest_decimal n v - 2 powi (k - 54) \<le> v \<and> v \<le> nearest_decimal n v + 2 powi (k - 54)"
    and "\<exists>j. lo \<le> j \<and> j \<le> hi \<and> v = fl (of_int j / 10 ^ n) \<and>
           nearest_decimal n v = of_int j / 10 ^ n"
proof -
  define j where "j = round_half_even (x * 10 ^ n)"
  have vj: "v = fl (of_int j / 10 ^ n)"
    by (simp add: v py_round_def j_def)
  have jr: "(of_int lo :: rat) \<le> of_int j" "(of_int j :: rat) \<le> of_int hi"
    using j by (simp_all add: j_def)
  have pos: "(0::rat) < 10 ^ n" by simp
  have "- (2 powi k) < (of_int j / 10 ^ n :: rat)" "(of_int j / 10 ^ n :: rat) < 2 powi k"
    using jr mag pos by (simp_all add: pos_less_divide_eq pos_divide_less_eq)
  then have "\<bar>of_int j / 10 ^ n :: rat\<bar> < 2 powi k" by linarith
  note d = decimal_float [OF this k]
  from d(1) have nd: "nearest_decimal n v = of_int j / 10 ^ n"
    by (simp add: nearest_decimal_def vj)
  from d(1) show "rounded_to n v"
    by (simp add: rounded_to_def nearest_decimal_def vj)
  from jr pos show "of_int lo / 10 ^ n \<le> nearest_decimal n v \<and> nearest_decimal n v \<le> of_int hi / 10 ^ n"
    by (simp add: nd divide_right_mono)
  have "\<bar>v - nearest_decimal n v\<bar> \<le> 2 powi (k - 54)"
    unfolding nd unfolding vj by (rule d(2))
  then show "nearest_decimal n v - 2 powi (k - 54) \<le> v \<and> v \<le> nearest_decimal n v + 2 powi (k - 54)"
    by linarith
  from j vj nd show "\<exists>j. lo \<le> j \<and> j \<le> hi \<and> v = fl (of_int j / 10 ^ n) \<and>
           nearest_decimal n v = of_int j / 10 ^ n"
    unfolding j_def by blast
qed

lemma reading_values:
  "dict_path (generate_cargo_data now r1 r2 r3 r4) [''location'', ''lat''] =
     Some (PFloat (py_round (fl (fl (13521 / 10000) + uniform (- fl (1 / 1000)) (fl (1 / 1000)) r1)) 4))"
  "dict_path (generate_cargo_data now r1 r2 r3 r4) [''location'', ''lon''] =
     Some (PFloat (py_round (fl (fl (1038198 / 10000) + uniform (- fl (1 / 1000)) (fl (1 / 1000)) r2)) 4))"
  "dict_path (generate_cargo_data now r1 r2 r3 r4) [''temperature''] =
     Some (PFloat (py_round (fl (fl (42 / 10) + uniform (- fl (5 / 10)) (fl (5 / 10)) r3)) 1))"
  "dict_path (generate_cargo_data now r1 r2 r3 r4) [''battery''] =
     Some (PFloat (py_round (fl (87 - fl (r4 * 2))) 1))"
  by (simp_all add: generate_cargo_data_def)

lemma uniform_zero: "uniform (- a) a 0 = fl (- a)"
  by (simp add: uniform_def)

lemma lat_at_zero:
  "py_round (fl (fl (13521 / 10000) + uniform (- fl (1 / 1000)) (fl (1 / 1000)) 0)) 4 = fl (13511 / 10000)"
proof -
  have x: "fl (fl (13521 / 10000) + uniform (- fl (1 / 1000)) (fl (1 / 1000)) 0) =
          3042406728270139 / 2251799813685248"
    unfolding uniform_zero fl_jitter fl_neg_jitter fl_lat_base
    using fl_lat_low by simp
  have r: "round_half_even (3042406728270139 / 2251799813685248 * 10 ^ 4) = 13511"
    by (rule round_half_even_unique) simp
  have d: "(of_int 13511 / 10 ^ 4 :: rat) = 13511 / 10000"
    by simp
  show ?thesis
    by (simp only: py_round_def x r d)
qed

lemma lon_at_zero:
  "py_round (fl (fl (1038198 / 10000) + uniform (- fl (1 / 1000)) (fl (1 / 1000)) 0)) 4 = fl (1038188 / 10000)"
proof -
  have x: "fl (fl (1038198 / 10000) + uniform (- fl (1 / 1000)) (fl (1 / 1000)) 0) =
          7305598578032063 / 70368744177664"
    unfolding uniform_zero fl_jitter fl_neg_jitter fl_lon_base
    using fl_lon_low by simp
  have r: "round_half_even (7305598578032063 / 70368744177664 * 10 ^ 4) = 1038188"
    by (rule round_half_even_unique) simp
  have d: "(of_int 1038188 / 10 ^ 4 :: rat) = 1038188 / 10000"
    by simp
  show ?thesis
    by (simp only: py_round_def x r d)
qed

lemma temperature_at_zero:
  "py_round (fl (fl (42 / 10) + uniform (- fl (5 / 10)) (fl (5 / 10)) 0)) 1 = fl (37 / 10)"
proof -
  have x: "fl (fl (42 / 10) + uniform (- fl (5 / 10)) (fl (5 / 10)) 0) =
          4165829655317709 / 1125899906842624"
    unfolding uniform_zero fl_half fl_neg_half fl_temp_base
    using fl_temp_low by simp
  have r: "round_half_even (4165829655317709 / 1125899906842624 * 10 ^ 1) = 37"
    by (rule round_half_even_unique) simp
  have d: "(of_int 37 / 10 ^ 1 :: rat) = 37 / 10"
    by simp
  show ?thesis
    by (simp only: py_round_def x r d)
qed

lemma round_half_even_numeral [simp]: "round_half_even (numeral n) = numeral n"
  using round_half_even_of_int [of "numeral n"] by simp

lemma battery_at_zero: "py_round (fl (87 - fl (0 * 2))) 1 = 87"
  by (simp add: py_round_def fl_int_87)

lemma battery_at_half: "py_round (fl (87 - fl (1 / 2 * 2))) 1 = 86"
  by (simp add: py_round_def fl_int_1 fl_int_86)


text \<open>
  Claim C5, as stated, fails at the lower end of the latitude range. When the draw is 0
  the latitude is the float of 1.3511, and the distance of that float from the float of
  1.3521 exceeds the float of 0.001 (by about \<open>10 ^ - 16\<close>): the three decimals have no
  exact binary64 representation.
\<close>

theorem latitude_exceeds_jitter:
  "random_value 0 \<and>
   dict_path (generate_cargo_data noon 0 0 0 0) [''location'', ''lat''] = Some (PFloat (fl (13511 / 10000))) \<and>
   \<not> within_bound (fl (13521 / 10000)) (fl (1 / 1000)) (fl (13511 / 10000))"
proof -
  have "\<not> within_bound (fl (13521 / 10000)) (fl (1 / 1000)) (fl (13511 / 10000))"
    unfolding within_bound_def fl_lat_base fl_jitter fl_13511 by simp
  moreover have "dict_path (generate_cargo_data noon 0 0 0 0) [''location'', ''lat''] =
      Some (PFloat (fl (13511 / 10000)))"
    unfolding reading_values lat_at_zero by (rule refl)
  moreover have "random_value 0"
    by (simp add: random_value_def)
  ultimately show ?thesis by blast
qed

text \<open>
  Claim C5, amended. Latitude and longitude are rounded to 4 decimal places: each is the
  float nearest to a decimal with 4 digits after the point, and that decimal lies within
  0.001 of 1.3521, respectively of 103.8198. The floats themselves lie within
  \<open>0.001 + 2 ^ - 51\<close>, respectively \<open>0.001 + 2 ^ - 45\<close>, of the floats of the base values.
\<close>

theorem coordinates_rounded:
  assumes "random_value r1" and "random_value r2"
    and "dict_path (generate_cargo_data now r1 r2 r3 r4) [''location'', ''lat''] = Some (PFloat la)"
    and "dict_path (generate_cargo_data now r1 r2 r3 r4) [''location'', ''lon''] = Some (PFloat lo)"
  shows "rounded_to 4 la \<and> rounded_to 4 lo \<and>
         \<bar>nearest_decimal 4 la - 13521 / 10000\<bar> \<le> 1 / 1000 \<and>
         \<bar>nearest_decimal 4 lo - 1038198 / 10000\<bar> \<le> 1 / 1000 \<and>
         within_bound (fl (13521 / 10000)) (fl (1 / 1000) + 1 / 2 ^ 51) la \<and>
         within_bound (fl (1038198 / 10000)) (fl (1 / 1000) + 1 / 2 ^ 45) lo"
proof -
  have r1: "0 \<le> r1" "r1 < 1" and r2: "0 \<le> r2" "r2 < 1"
    using assms(1,2) by (simp_all add: random_value_def)
  have la: "la = py_round (fl (fl (13521 / 10000) + uniform (- fl (1 / 1000)) (fl (1 / 1000)) r1)) 4"
    and lo: "lo = py_round (fl (fl (1038198 / 10000) + uniform (- fl (1 / 1000)) (fl (1 / 1000)) r2)) 4"
    using assms(3,4) unfolding reading_values by simp_all
  note jla = lat_range [OF r1] and jlo = lon_range [OF r2]
  have m: "- (2 powi 1) * 10 ^ 4 < (of_int 13511 :: rat)" "(of_int 13531 :: rat) < 2 powi 1 * 10 ^ 4"
    "- 1021 \<le> (1::int)" "(10 ^ 4 :: rat) * 2 powi (1 - 54) < 1 / 2"
    by simp_all
  note A = rounded_field [OF la conjunct1 [OF jla] conjunct2 [OF jla] m]
  have n: "- (2 powi 7) * 10 ^ 4 < (of_int 1038188 :: rat)" "(of_int 1038208 :: rat) < 2 powi 7 * 10 ^ 4"
    "- 1021 \<le> (7::int)" "(10 ^ 4 :: rat) * 2 powi (7 - 54) < 1 / 2"
    by simp_all
  note B = rounded_field [OF lo conjunct1 [OF jlo] conjunct2 [OF jlo] n]
  from A(2) have a: "13511 / 10000 \<le> nearest_decimal 4 la \<and> nearest_decimal 4 la \<le> 13531 / 10000"
    by simp
  from B(2) have b: "1038188 / 10000 \<le> nearest_decimal 4 lo \<and> nearest_decimal 4 lo \<le> 1038208 / 10000"
    by simp
  have 1: "\<bar>nearest_decimal 4 la - 13521 / 10000\<bar> \<le> 1 / 1000"
    unfolding abs_le_iff using a by simp
  have 2: "\<bar>nearest_decimal 4 lo - 1038198 / 10000\<bar> \<le> 1 / 1000"
    unfolding abs_le_iff using b by simp
  have 5: "within_bound (fl (13521 / 10000)) (fl (1 / 1000) + 1 / 2 ^ 51) la"
    unfolding within_bound_def abs_le_iff fl_lat_base fl_jitter using a A(3) by simp
  have 6: "within_bound (fl (1038198 / 10000)) (fl (1 / 1000) + 1 / 2 ^ 45) lo"
    unfolding within_bound_def abs_le_iff fl_lon_base fl_jitter using b B(3) by simp
  from A(1) B(1) 1 2 5 6 show ?thesis by blast
qed


theorem coordinates_rounded_witness:
  "random_value 0 \<and>
   dict_path (generate_cargo_data noon 0 0 0 0) [''location'', ''lat''] = Some (PFloat (fl (13511 / 10000))) \<and>
   dict_path (generate_cargo_data noon 0 0 0 0) [''location'', ''lon''] = Some (PFloat (fl (1038188 / 10000))) \<and>
   rounded_to 4 (fl (13511 / 10000)) \<and> rounded_to 4 (fl (1038188 / 10000)) \<and>
   \<bar>nearest_decimal 4 (fl (13511 / 10000)) - 13521 / 10000\<bar> \<le> 1 / 1000 \<and>
   \<bar>nearest_decimal 4 (fl (1038188 / 10000)) - 1038198 / 10000\<bar> \<le> 1 / 1000 \<and>
   within_bound (fl (13521 / 10000)) (fl (1 / 1000) + 1 / 2 ^ 51) (fl (13511 / 10000)) \<and>
   within_bound (fl (1038198 / 10000)) (fl (1 / 1000) + 1 / 2 ^ 45) (fl (1038188 / 10000))"
proof -
  have r: "random_value 0"
    by (simp add: random_value_def)
  have la: "dict_path (generate_cargo_data noon 0 0 0 0) [''location'', ''lat''] =
      Some (PFloat (fl (13511 / 10000)))"
    unfolding reading_values lat_at_zero by (rule refl)
  have lo: "dict_path (generate_cargo_data noon 0 0 0 0) [''location'', ''lon''] =
      Some (PFloat (fl (1038188 / 10000)))"
    unfolding reading_values lon_at_zero by (rule refl)
  from r la lo coordinates_rounded [OF r r la lo] show ?thesis by blast
qed

lemma rounded_to_round: "rounded_to n v \<longleftrightarrow> py_round v n = v"
  by (simp add: rounded_to_def nearest_decimal_def py_round_def)

lemma fl_quarter: "fl (1 / 4) = 1 / 4"
  using fl_certificate [of "- 2" "1 / 4" 4503599627370496] by simp

lemma fl_neg_quarter: "fl (- (1 / 4)) = - (1 / 4)"
  using fl_certificate [of "- 2" "- (1 / 4)" "- 4503599627370496"] by simp

lemma fl_temp_quarter: "fl (4447304632028365 / 1125899906842624) = 4447304632028365 / 1125899906842624"
  using fl_certificate [of 1 "4447304632028365 / 1125899906842624" 8894609264056730] by simp

lemma fl_int_4: "fl 4 = 4"
  using fl_certificate [of 2 "4" 4503599627370496] by simp

lemma fl_battery_quarter: "fl (347 / 4) = 347 / 4"
  using fl_certificate [of 6 "347 / 4" 6104488557412352] by simp

lemma fl_868: "fl (868 / 10) = 6108006994621235 / 70368744177664"
  using fl_certificate [of 6 "868 / 10" 6108006994621235] by simp

lemma uniform_half_quarter: "uniform (- fl (5 / 10)) (fl (5 / 10)) (1 / 4) = - (1 / 4)"
  unfolding uniform_def fl_half
  by (simp add: fl_int_1 fl_quarter fl_neg_quarter)

lemma temperature_before_round:
  "fl (fl (42 / 10) + uniform (- fl (5 / 10)) (fl (5 / 10)) (1 / 4)) =
     4447304632028365 / 1125899906842624"
  unfolding uniform_half_quarter fl_temp_base
  using fl_temp_quarter by simp

lemma temperature_at_quarter:
  "py_round (fl (fl (42 / 10) + uniform (- fl (5 / 10)) (fl (5 / 10)) (1 / 4))) 1 = 4"
proof -
  have r: "round_half_even (4447304632028365 / 1125899906842624 * 10 ^ 1) = 40"
    by (rule round_half_even_unique) simp
  have d: "(of_int 40 / 10 ^ 1 :: rat) = 4"
    by simp
  show ?thesis
    by (simp only: py_round_def temperature_before_round r d fl_int_4)
qed

lemma battery_before_round: "fl (87 - fl (1 / 8 * 2)) = 347 / 4"
  by (simp add: fl_quarter fl_battery_quarter)

lemma round_half_even_tie: "round_half_even (347 / 4 * 10 ^ 1) = 868"
proof -
  have "\<lfloor>1735 / 2 :: rat\<rfloor> = 867"
    by (rule floor_unique) simp_all
  then show ?thesis
    by (simp add: round_half_even_def)
qed

lemma battery_at_eighth: "py_round (fl (87 - fl (1 / 8 * 2))) 1 = fl (868 / 10)"
proof -
  note r = round_half_even_tie
  have d: "(of_int 868 / 10 ^ 1 :: rat) = 868 / 10"
    by simp
  show ?thesis
    by (simp only: py_round_def battery_before_round r d)
qed

text \<open>
  Claim C6. Temperature and battery are rounded to one decimal place: each is the float
  nearest to a decimal with one digit after the point, and that decimal lies within 0.5
  of 4.2, respectively between 87 - 2 and 87. The floats themselves: the temperature lies
  within 0.5 of 4.2 (as floats, exactly), and the battery lies between 87 - 2 and 87.
\<close>

theorem temperature_battery_bounds:
  assumes "random_value r3" and "random_value r4"
    and "dict_path (generate_cargo_data now r1 r2 r3 r4) [''temperature''] = Some (PFloat t)"
    and "dict_path (generate_cargo_data now r1 r2 r3 r4) [''battery''] = Some (PFloat b)"
  shows "rounded_to 1 t \<and> rounded_to 1 b \<and>
         within_bound (42 / 10) (5 / 10) (nearest_decimal 1 t) \<and>
         87 - 2 \<le> nearest_decimal 1 b \<and> nearest_decimal 1 b \<le> 87 \<and>
         within_bound (fl (42 / 10)) (fl (5 / 10)) t \<and> 87 - 2 \<le> b \<and> b \<le> 87"
proof -
  have r3: "0 \<le> r3" "r3 < 1" and r4: "0 \<le> r4" "r4 < 1"
    using assms(1,2) by (simp_all add: random_value_def)
  have t: "t = py_round (fl (fl (42 / 10) + uniform (- fl (5 / 10)) (fl (5 / 10)) r3)) 1"
    and b: "b = py_round (fl (87 - fl (r4 * 2))) 1"
    using assms(3,4) unfolding reading_values by simp_all
  note jt = temperature_range [OF r3] and jb = battery_range [OF r4]
  have m: "- (2 powi 3) * 10 ^ 1 < (of_int 37 :: rat)" "(of_int 47 :: rat) < 2 powi 3 * 10 ^ 1"
    "- 1021 \<le> (3::int)" "(10 ^ 1 :: rat) * 2 powi (3 - 54) < 1 / 2"
    by simp_all
  note T = rounded_field [OF t conjunct1 [OF jt] conjunct2 [OF jt] m]
  have n: "- (2 powi 7) * 10 ^ 1 < (of_int 850 :: rat)" "(of_int 870 :: rat) < 2 powi 7 * 10 ^ 1"
    "- 1021 \<le> (7::int)" "(10 ^ 1 :: rat) * 2 powi (7 - 54) < 1 / 2"
    by simp_all
  note B = rounded_field [OF b conjunct1 [OF jb] conjunct2 [OF jb] n]
  have dect: "within_bound (42 / 10) (5 / 10) (nearest_decimal 1 t)"
    unfolding within_bound_def abs_le_iff using T(2) by simp
  have decb: "87 - 2 \<le> nearest_decimal 1 b \<and> nearest_decimal 1 b \<le> 87"
    using B(2) by simp
  have temp: "within_bound (fl (42 / 10)) (fl (5 / 10)) t"
  proof -
    obtain j where j: "37 \<le> j" "j \<le> 47" "t = fl (of_int j / 10 ^ 1)"
      "nearest_decimal 1 t = of_int j / 10 ^ 1"
      using T(4) by blast
    consider "j = 37" | "j = 47" | "38 \<le> j \<and> j \<le> 46"
      using j(1,2) by linarith
    then show ?thesis
    proof cases
      case 1
      then have "t = fl (37 / 10)" using j(3) by simp
      then show ?thesis
        unfolding within_bound_def fl_temp_base fl_half by (simp add: fl_37)
    next
      case 2
      then have "t = fl (47 / 10)" using j(3) by simp
      then show ?thesis
        unfolding within_bound_def fl_temp_base fl_half by (simp add: fl_47)
    next
      case 3
      then have jr: "(38::rat) \<le> of_int j" "(of_int j :: rat) \<le> 46" by simp_all
      show ?thesis
        unfolding within_bound_def abs_le_iff fl_temp_base fl_half
        using jr T(3) j(4) by simp
    qed
  qed
  have batt: "87 - 2 \<le> b \<and> b \<le> 87"
  proof -
    obtain j where j: "850 \<le> j" "j \<le> 870" "b = fl (of_int j / 10 ^ 1)"
      "nearest_decimal 1 b = of_int j / 10 ^ 1"
      using B(4) by blast
    consider "j = 850" | "j = 870" | "851 \<le> j \<and> j \<le> 869"
      using j(1,2) by linarith
    then show ?thesis
    proof cases
      case 1
      then have "b = fl 85" using j(3) by simp
      then show ?thesis by (simp add: fl_int_85)
    next
      case 2
      then have "b = fl 87" using j(3) by simp
      then show ?thesis by (simp add: fl_int_87)
    next
      case 3
      then have jr: "(851::rat) \<le> of_int j" "(of_int j :: rat) \<le> 869" by simp_all
      show ?thesis
        using jr B(3) j(4) by simp
    qed
  qed
  from T(1) B(1) dect decb temp batt show ?thesis by blast
qed

theorem temperature_battery_bounds_witness:
  "random_value (1 / 4) \<and> random_value (1 / 8) \<and>
   \<not> rounded_to 1 (fl (fl (42 / 10) + uniform (- fl (5 / 10)) (fl (5 / 10)) (1 / 4))) \<and>
   \<not> rounded_to 1 (fl (87 - fl (1 / 8 * 2))) \<and>
   dict_path (generate_cargo_data noon 0 0 (1 / 4) (1 / 8)) [''temperature''] = Some (PFloat 4) \<and>
   dict_path (generate_cargo_data noon 0 0 (1 / 4) (1 / 8)) [''battery''] =
     Some (PFloat (fl (868 / 10))) \<and>
   rounded_to 1 4 \<and> rounded_to 1 (fl (868 / 10)) \<and>
   within_bound (42 / 10) (5 / 10) (nearest_decimal 1 4) \<and>
   87 - 2 \<le> nearest_decimal 1 (fl (868 / 10)) \<and> nearest_decimal 1 (fl (868 / 10)) \<le> 87 \<and>
   within_bound (fl (42 / 10)) (fl (5 / 10)) 4 \<and>
   87 - 2 \<le> fl (868 / 10) \<and> fl (868 / 10) \<le> 87"
proof -
  have r: "random_value (1 / 4)" "random_value (1 / 8)"
    by (simp_all add: random_value_def)
  have ut: "\<not> rounded_to 1 (fl (fl (42 / 10) + uniform (- fl (5 / 10)) (fl (5 / 10)) (1 / 4)))"
  proof -
    have "round_half_even (4447304632028365 / 1125899906842624 * 10 ^ 1) = 40"
      by (rule round_half_even_unique) simp
    then have "nearest_decimal 1 (4447304632028365 / 1125899906842624) = 4"
      by (simp only: nearest_decimal_def) simp
    then show ?thesis
      unfolding temperature_before_round rounded_to_def by (simp add: fl_int_4)
  qed
  have ub: "\<not> rounded_to 1 (fl (87 - fl (1 / 8 * 2)))"
  proof -
    have nd: "nearest_decimal 1 (347 / 4) = 868 / 10"
      by (simp only: nearest_decimal_def round_half_even_tie) simp
    show ?thesis
      unfolding battery_before_round rounded_to_def nd fl_868 by simp
  qed
  have t: "dict_path (generate_cargo_data noon 0 0 (1 / 4) (1 / 8)) [''temperature''] =
      Some (PFloat 4)"
    unfolding reading_values temperature_at_quarter by (rule refl)
  have b: "dict_path (generate_cargo_data noon 0 0 (1 / 4) (1 / 8)) [''battery''] =
      Some (PFloat (fl (868 / 10)))"
    unfolding reading_values battery_at_eighth by (rule refl)
  from r ut ub t b temperature_battery_bounds [OF r t b] show ?thesis by blast
qed

section \<open>Decimal numerals\<close>

lemma digit_char_is_digit: "is_digit (digit_char d)"
  by (simp add: digit_char_def is_digit_def)

lemma digit_val_digit_char: "0 \<le> d \<Longrightarrow> d \<le> 9 \<Longrightarrow> digit_val (digit_char d) = d"
  by (auto simp: digit_char_def digit_val_def; presburger)

lemma digit_char_zero_iff: "0 \<le> d \<Longrightarrow> d \<le> 9 \<Longrightarrow> digit_char d = CHR ''0'' \<longleftrightarrow> d = 0"
  by (auto simp: digit_char_def)

lemma digits_value_snoc: "digits_value (ds @ [c]) = digits_value ds * 10 + digit_val c"
  by (simp add: digits_value_def)

lemma digits_value_Nil [simp]: "digits_value [] = 0"
  by (simp add: digits_value_def)

lemma digits_value_append:
  "digits_value (a @ b) = digits_value a * 10 ^ length b + digits_value b"
  by (induction b rule: rev_induct) (simp_all add: digits_value_snoc algebra_simps flip: append_assoc)

lemma digits_value_zeros: "digits_value (replicate z CHR ''0'') = 0"
  unfolding digits_value_def by (induction z) (simp_all add: digit_val_def)

lemma show_nat_digits: "list_all is_digit (show_nat n)"
proof (induction n rule: show_nat.induct)
  case (1 n)
  then show ?case
    by (subst show_nat.simps) (simp add: digit_char_is_digit)
qed

lemma show_nat_value: "0 \<le> n \<Longrightarrow> digits_value (show_nat n) = n"
proof (induction n rule: show_nat.induct)
  case (1 n)
  show ?case
  proof (cases "n < 10")
    case True
    with 1(2) show ?thesis
      by (subst show_nat.simps) (simp add: digits_value_def digit_val_digit_char)
  next
    case False
    then have "digits_value (show_nat (n div 10)) = n div 10"
      using 1 by simp
    moreover have "digit_val (digit_char (n mod 10)) = n mod 10"
      by (rule digit_val_digit_char) simp_all
    ultimately show ?thesis
      using False by (subst show_nat.simps) (simp add: digits_value_snoc)
  qed
qed

lemma show_nat_nonempty: "show_nat n \<noteq> []"
  by (subst show_nat.simps) simp

lemma show_nat_hd: "0 < n \<Longrightarrow> hd (show_nat n) \<noteq> CHR ''0''"
proof (induction n rule: show_nat.induct)
  case (1 n)
  show ?case
  proof (cases "n < 10")
    case True
    with 1(2) show ?thesis
      by (subst show_nat.simps) (simp add: digit_char_zero_iff)
  next
    case False
    then have "hd (show_nat (n div 10)) \<noteq> CHR ''0''"
      using 1 by simp
    then show ?thesis
      using False by (subst show_nat.simps) (simp add: show_nat_nonempty)
  qed
qed

lemma show_nat_length:
  "0 < n \<Longrightarrow> 10 ^ (length (show_nat n) - 1) \<le> n \<and> n < 10 ^ length (show_nat n)"
proof (induction n rule: show_nat.induct)
  case (1 n)
  show ?case
  proof (cases "n < 10")
    case True
    with 1(2) show ?thesis
      by (subst show_nat.simps, subst (2) show_nat.simps) simp
  next
    case False
    define m where "m = length (show_nat (n div 10))"
    have m: "10 ^ (m - 1) \<le> n div 10 \<and> n div 10 < 10 ^ m"
      using 1 False by (simp add: m_def)
    have "0 < m" using show_nat_nonempty [of "n div 10"] by (simp add: m_def)
    then obtain k where k: "m = Suc k" by (cases m) simp_all
    have len: "length (show_nat n) = Suc m"
      using False by (subst show_nat.simps) (simp add: m_def)
    from m k have "10 ^ k * 10 \<le> n" "n < 10 ^ m * 10"
      by (simp; linarith)+
    then show ?thesis by (simp add: len k)
  qed
qed

lemma strip_zeros_split:
  "\<exists>z. ds = strip_zeros ds @ replicate z CHR ''0''"
proof -
  have "rev ds = takeWhile (\<lambda>c. c = CHR ''0'') (rev ds) @ dropWhile (\<lambda>c. c = CHR ''0'') (rev ds)"
    by simp
  then have "ds = strip_zeros ds @ rev (takeWhile (\<lambda>c. c = CHR ''0'') (rev ds))"
    unfolding strip_zeros_def by (metis rev_append rev_rev_ident)
  moreover have "rev (takeWhile (\<lambda>c. c = CHR ''0'') (rev ds)) =
      replicate (length (takeWhile (\<lambda>c. c = CHR ''0'') (rev ds))) CHR ''0''"
    by (intro replicate_eqI) (auto dest: set_takeWhileD)
  ultimately show ?thesis by metis
qed

lemma strip_zeros_hd:
  assumes "ds \<noteq> []" and "hd ds \<noteq> CHR ''0''"
  shows "strip_zeros ds \<noteq> [] \<and> hd (strip_zeros ds) = hd ds"
proof -
  obtain z where z: "ds = strip_zeros ds @ replicate z CHR ''0''"
    using strip_zeros_split by blast
  have "strip_zeros ds \<noteq> []"
  proof
    assume "strip_zeros ds = []"
    with z have "ds = replicate z CHR ''0''" by simp
    with assms show False by (cases z) simp_all
  qed
  with z show ?thesis by (metis hd_append2)
qed

section \<open>\<open>repr\<close> of a float, read back\<close>

text \<open>
  The digits \<open>repr\<close> chooses for a float that is rounded to a few decimal places: the
  search stops at the latest at the digit count of that decimal, the digits denote a
  decimal whose nearest float is the float printed, and for a value between 1 and 1000
  they are written in positional notation, with a point and without an exponent.
\<close>

lemma declen_length: "0 < n \<Longrightarrow> declen n = int (length (show_nat n))"
proof (induction n rule: declen.induct)
  case (1 n)
  show ?case
  proof (cases "n < 10")
    case True
    then have "n div 10 = 0" using 1(2) by simp
    then have "declen n = 1"
      using 1(2) by (subst declen.simps) (simp add: declen.simps [of 0])
    then show ?thesis
      using True by (subst show_nat.simps) simp
  next
    case False
    then have "declen (n div 10) = int (length (show_nat (n div 10)))"
      using 1 by simp
    then show ?thesis
      using False 1(2) by (subst declen.simps, subst show_nat.simps) simp
  qed
qed

lemma decade_bounds:
  assumes "x \<noteq> 0"
  shows "10 powi (decade x - 1) \<le> \<bar>x\<bar> \<and> \<bar>x\<bar> < 10 powi decade x"
proof -
  define a where "a = \<bar>x\<bar>"
  obtain p q where pq: "quotient_of a = (p, q)" by (cases "quotient_of a")
  have a: "0 < a" using assms by (simp add: a_def)
  have q: "0 < q" using quotient_of_denom_pos [OF pq] .
  have aeq: "a = of_int p / of_int q" using quotient_of_div [OF pq] .
  have p: "0 < p" using a q by (simp add: aeq zero_less_divide_iff)
  define bp where "bp = length (show_nat p) - 1"
  define bq where "bq = length (show_nat q) - 1"
  have len: "length (show_nat p) = Suc bp" "length (show_nat q) = Suc bq"
    using show_nat_nonempty [of p] show_nat_nonempty [of q]
    by (simp_all add: bp_def bq_def)
  have "10 ^ bp \<le> p \<and> p < 10 ^ Suc bp" "10 ^ bq \<le> q \<and> q < 10 ^ Suc bq"
    using show_nat_length [OF p] show_nat_length [OF q] unfolding len by simp_all
  then have P: "(10::rat) ^ bp \<le> of_int p" "of_int p < (10::rat) ^ Suc bp"
    and Q: "(10::rat) ^ bq \<le> of_int q" "of_int q < (10::rat) ^ Suc bq"
    by (metis of_int_le_iff of_int_less_iff of_int_numeral of_int_power)+
  have s: "10 powi (int bp - int bq - 1) < a \<and> a < 10 powi (int bp - int bq + 1)"
    unfolding aeq using P Q by (intro quotient_scale_bounds) simp_all
  have b: "decade x = (if 10 powi (int bp - int bq) \<le> a then int bp - int bq + 1
                       else int bp - int bq)"
    by (simp add: decade_def a_def [symmetric] pq declen_length [OF p] declen_length [OF q] len)
  show ?thesis
  proof (cases "10 powi (int bp - int bq) \<le> a")
    case True
    with b s show ?thesis by (simp add: a_def)
  next
    case False
    with b s show ?thesis by (simp add: a_def)
  qed
qed

lemma round_half_even_floor: "\<lfloor>y\<rfloor> \<le> round_half_even y \<and> round_half_even y \<le> \<lfloor>y\<rfloor> + 1"
  by (simp add: round_half_even_def Let_def)

lemma shortest_digits_found:
  assumes "n0 \<in> set ns"
    and "fl (of_int (round_half_even (x / 10 powi (k - int n0))) * 10 powi (k - int n0)) = x"
  shows "\<exists>c n. shortest_digits x k ns = (c, k - int n) \<and> n \<in> set ns \<and>
           fl (of_int c * 10 powi (k - int n)) = x \<and>
           \<lfloor>x / 10 powi (k - int n)\<rfloor> \<le> c \<and> c \<le> \<lfloor>x / 10 powi (k - int n)\<rfloor> + 1"
  using assms(1)
proof (induction ns)
  case Nil
  then show ?case by simp
next
  case (Cons n ns)
  define s :: rat where "s = 10 powi (k - int n)"
  define y where "y = x / s"
  define near where "near = round_half_even y"
  define far where "far = (if near = \<lfloor>y\<rfloor> then \<lfloor>y\<rfloor> + 1 else \<lfloor>y\<rfloor>)"
  have near: "\<lfloor>y\<rfloor> \<le> near \<and> near \<le> \<lfloor>y\<rfloor> + 1"
    unfolding near_def by (rule round_half_even_floor)
  have far: "\<lfloor>y\<rfloor> \<le> far \<and> far \<le> \<lfloor>y\<rfloor> + 1"
    unfolding far_def by simp
  have unfold: "shortest_digits x k (n # ns) =
      (if fl (of_int near * s) = x then (near, k - int n)
       else if fl (of_int far * s) = x then (far, k - int n)
       else shortest_digits x k ns)"
    by (simp add: Let_def s_def y_def near_def far_def)
  show ?case
  proof (cases "fl (of_int near * s) = x")
    case True
    with near unfold show ?thesis
      unfolding s_def y_def by (intro exI [of _ near] exI [of _ n]) simp
  next
    case nf: False
    show ?thesis
    proof (cases "fl (of_int far * s) = x")
      case True
      with nf far unfold show ?thesis
        unfolding s_def y_def by (intro exI [of _ far] exI [of _ n]) simp
    next
      case False
      with nf assms(2) have "n0 \<noteq> n"
        unfolding near_def y_def s_def by auto
      with Cons.prems have "n0 \<in> set ns" by simp
      from Cons.IH [OF this] nf False unfold show ?thesis
        by auto
    qed
  qed
qed

lemma power_int_split:
  assumes "1 \<le> n"
  shows "(10::rat) powi (k - 1) = of_int (10 ^ (n - 1)) * 10 powi (k - int n)"
    and "(10::rat) powi k = of_int (10 ^ n) * 10 powi (k - int n)"
proof -
  have "(10::rat) powi (k - 1) = 10 powi (int (n - 1) + (k - int n))"
    using assms by (simp add: of_nat_diff)
  also have "\<dots> = 10 powi int (n - 1) * 10 powi (k - int n)"
    by (intro power_int_add) simp
  finally show "(10::rat) powi (k - 1) = of_int (10 ^ (n - 1)) * 10 powi (k - int n)"
    by (simp only: power_int_of_nat of_int_power of_int_numeral)
  have "(10::rat) powi k = 10 powi (int n + (k - int n))"
    by simp
  also have "\<dots> = 10 powi int n * 10 powi (k - int n)"
    by (intro power_int_add) simp
  finally show "(10::rat) powi k = of_int (10 ^ n) * 10 powi (k - int n)"
    by (simp only: power_int_of_nat of_int_power of_int_numeral)
qed

lemma float_digits:
  assumes x: "0 < x" and r: "rounded_to m x"
    and k1: "1 \<le> decade x" and k2: "decade x + int m \<le> 17"
  shows "\<exists>c n. shortest_digits x (decade x) [1..<18] = (c, decade x - int n) \<and> 1 \<le> n \<and>
           fl (of_int c * 10 powi (decade x - int n)) = x \<and> 10 ^ (n - 1) \<le> c \<and> c \<le> 10 ^ n"
proof -
  define k where "k = decade x"
  define n0 where "n0 = nat (k + int m)"
  have n0: "n0 \<in> set [1..<18]"
    using k1 k2 unfolding n0_def k_def by simp linarith
  have e0: "k - int n0 = - int m"
    using k1 by (simp add: n0_def k_def)
  have p: "(10::rat) powi (k - int n0) = 1 / 10 ^ m"
    unfolding e0 by (simp add: power_int_minus divide_inverse)
  have hit: "fl (of_int (round_half_even (x / 10 powi (k - int n0))) * 10 powi (k - int n0)) = x"
    using r unfolding rounded_to_def nearest_decimal_def p by simp
  from shortest_digits_found [OF n0 hit]
  obtain c n where c: "shortest_digits x k [1..<18] = (c, k - int n)" "n \<in> set [1..<18]"
    "fl (of_int c * 10 powi (k - int n)) = x"
    "\<lfloor>x / 10 powi (k - int n)\<rfloor> \<le> c" "c \<le> \<lfloor>x / 10 powi (k - int n)\<rfloor> + 1"
    by blast
  have n: "1 \<le> n" using c(2) by simp
  define s :: rat where "s = 10 powi (k - int n)"
  have s: "0 < s" by (simp add: s_def)
  have kb: "10 powi (k - 1) \<le> x" "x < 10 powi k"
    using decade_bounds [of x] x by (simp_all add: k_def)
  note ps = power_int_split [OF n, of k, folded s_def]
  have lo: "of_int (10 ^ (n - 1)) \<le> x / s"
    using kb(1) s unfolding ps(1) by (simp only: pos_le_divide_eq)
  have hi: "x / s < of_int (10 ^ n)"
    using kb(2) s unfolding ps(2) by (simp only: pos_divide_less_eq)
  have "10 ^ (n - 1) \<le> \<lfloor>x / s\<rfloor>"
    using lo by (simp only: le_floor_iff)
  moreover have "\<lfloor>x / s\<rfloor> < 10 ^ n"
    using hi by (simp only: floor_less_iff)
  ultimately have "10 ^ (n - 1) \<le> c \<and> c \<le> 10 ^ n"
    using c(4,5) unfolding s_def by linarith
  with c(1,3) n show ?thesis
    unfolding k_def by blast
qed

lemma length_bounds:
  assumes "0 < c" and "(10::int) ^ (n - 1) \<le> c" and "c \<le> 10 ^ n" and "1 \<le> n"
  shows "n \<le> length (show_nat c) \<and> length (show_nat c) \<le> n + 1"
proof -
  define L where "L = length (show_nat c)"
  have L: "(10::int) ^ (L - 1) \<le> c" "c < 10 ^ L"
    using show_nat_length [OF assms(1)] by (simp_all add: L_def)
  have "(10::int) ^ (n - 1) < 10 ^ L"
    using assms(2) L(2) by linarith
  then have "n - 1 < L" by simp
  moreover have "(10::int) ^ (L - 1) \<le> 10 ^ n"
    using assms(3) L(1) by linarith
  then have "L - 1 \<le> n" by simp
  ultimately show ?thesis
    using assms(4) unfolding L_def by linarith
qed

lemma zeros_digits: "list_all is_digit (replicate q CHR ''0'')"
  by (induction q) (simp_all add: is_digit_def)

lemma float_repr_decimal:
  assumes x: "0 < x" and r: "rounded_to m x"
    and k1: "1 \<le> decade x" and k2: "decade x + int m \<le> 15"
  shows "\<exists>ip fp. float_repr x = ip @ CHR ''.'' # fp \<and>
           ip \<noteq> [] \<and> hd ip \<noteq> CHR ''0'' \<and> list_all is_digit ip \<and>
           fp \<noteq> [] \<and> list_all is_digit fp \<and>
           fl (of_int (digits_value ip) + of_int (digits_value fp) / 10 ^ length fp) = x"
proof -
  define k where "k = decade x"
  have k2': "decade x + int m \<le> 17" using k2 by simp
  from float_digits [OF x r k1 k2']
  obtain c n where c: "shortest_digits x k [1..<18] = (c, k - int n)" "1 \<le> n"
    "fl (of_int c * 10 powi (k - int n)) = x" "10 ^ (n - 1) \<le> c" "c \<le> 10 ^ n"
    unfolding k_def by blast
  have c0: "0 < c"
    using c(4) zero_less_power [of "10::int" "n - 1"] by linarith
  define L where "L = length (show_nat c)"
  have L: "n \<le> L" "L \<le> n + 1"
    using length_bounds [OF c0 c(4,5,2)] by (simp_all add: L_def)
  define decpt where "decpt = int L + (k - int n)"
  have d: "1 \<le> decpt" "decpt \<le> 16"
    using L k1 k2 unfolding decpt_def k_def by linarith+
  define ds where "ds = strip_zeros (show_nat c)"
  obtain z where z: "show_nat c = ds @ replicate z CHR ''0''"
    using strip_zeros_split [of "show_nat c"] unfolding ds_def by blast
  have ds: "ds \<noteq> []" "hd ds \<noteq> CHR ''0''"
    using strip_zeros_hd [OF show_nat_nonempty show_nat_hd [OF c0]] show_nat_hd [OF c0]
    unfolding ds_def by simp_all
  have dd: "list_all is_digit ds"
    using show_nat_digits [of c] unfolding z by simp
  have cv: "c = digits_value ds * 10 ^ z"
    using show_nat_value [of c] c0 unfolding z
    by (simp add: digits_value_append digits_value_zeros)
  have Lz: "L = length ds + z"
    unfolding L_def z by simp
  define nn where "nn = int (length ds)"
  have ax: "\<bar>x\<bar> = x" using x by simp
  have repr: "float_repr x =
      (if nn \<le> decpt then ds @ replicate (nat (decpt - nn)) CHR ''0'' @ ''.0''
       else take (nat decpt) ds @ CHR ''.'' # drop (nat decpt) ds)"
    unfolding float_repr_def ax k_def [symmetric] c(1) Let_def prod.case L_def [symmetric]
      ds_def [symmetric] decpt_def [symmetric] nn_def [symmetric]
    using x d by simp
  have val: "of_int c * 10 powi (k - int n) = of_int (digits_value ds) * (10::rat) powi (decpt - nn)"
  proof -
    have e: "decpt - nn = int z + (k - int n)"
      unfolding decpt_def nn_def Lz by simp
    have "(10::rat) powi (int z + (k - int n)) = 10 powi int z * 10 powi (k - int n)"
      by (intro power_int_add) simp
    then have "(10::rat) powi (decpt - nn) = 10 ^ z * 10 powi (k - int n)"
      unfolding e by (simp only: power_int_of_nat)
    then show ?thesis
      unfolding cv by (simp only: of_int_mult of_int_power of_int_numeral mult.assoc)
  qed
  show ?thesis
  proof (cases "nn \<le> decpt")
    case True
    define ip where "ip = ds @ replicate (nat (decpt - nn)) CHR ''0''"
    have 1: "float_repr x = ip @ CHR ''.'' # ''0''"
      using True by (simp add: repr ip_def)
    have 2: "ip \<noteq> []" "hd ip \<noteq> CHR ''0''" "list_all is_digit ip"
      using ds dd zeros_digits [of "nat (decpt - nn)"] by (simp_all add: ip_def)
    have "digits_value ip = digits_value ds * 10 ^ nat (decpt - nn)"
      by (simp add: ip_def digits_value_append digits_value_zeros)
    moreover have "(10::rat) powi (decpt - nn) = 10 ^ nat (decpt - nn)"
      using True by (simp add: power_int_def)
    ultimately have "(of_int (digits_value ip) :: rat) = of_int c * 10 powi (k - int n)"
      unfolding val by simp
    then have 3: "fl (of_int (digits_value ip) + of_int (digits_value ''0'') / 10 ^ length ''0'') = x"
      using c(3) by (simp add: digits_value_def digit_val_def)
    have 4: "''0'' \<noteq> []" "list_all is_digit ''0''"
      by (simp_all add: is_digit_def)
    from 1 2 3 4 show ?thesis by blast
  next
    case False
    define ip where "ip = take (nat decpt) ds"
    define fp where "fp = drop (nat decpt) ds"
    have lt: "nat decpt < length ds" using False d by (simp add: nn_def)
    have 1: "float_repr x = ip @ CHR ''.'' # fp"
      using False by (simp add: repr ip_def fp_def)
    have ne: "ip \<noteq> []" using d ds(1) by (simp add: ip_def)
    have "hd ip = hd ds" using d by (simp add: ip_def hd_take)
    then have 2: "hd ip \<noteq> CHR ''0''" using ds(2) by simp
    have sp: "ds = ip @ fp" by (simp add: ip_def fp_def)
    have 3: "list_all is_digit ip" "list_all is_digit fp"
      using dd unfolding sp by simp_all
    have 4: "fp \<noteq> []" using lt by (simp add: fp_def)
    have lf: "int (length fp) = nn - decpt"
      using lt d by (simp add: fp_def nn_def)
    have e2: "decpt - nn = - int (length fp)"
      using lf by simp
    have "(10::rat) powi (decpt - nn) = inverse (10 powi int (length fp))"
      unfolding e2 by (rule power_int_minus)
    then have A: "(10::rat) powi (decpt - nn) = 1 / 10 ^ length fp"
      by (simp only: power_int_of_nat inverse_eq_divide)
    have B: "(of_int (digits_value ds) :: rat) =
        of_int (digits_value ip) * 10 ^ length fp + of_int (digits_value fp)"
      unfolding sp by (simp add: digits_value_append)
    have "(of_int (digits_value ip) + of_int (digits_value fp) / 10 ^ length fp :: rat) =
        of_int c * 10 powi (k - int n)"
      unfolding val A B by (simp add: add_divide_distrib)
    then have 5: "fl (of_int (digits_value ip) + of_int (digits_value fp) / 10 ^ length fp) = x"
      using c(3) by simp
    from 1 ne 2 3 4 5 show ?thesis by blast
  qed
qed

text \<open>
  The number pattern of the decoder on such a text, followed by a comma or a closing
  brace: integer part, fraction, no exponent; the value is the float nearest to the
  decimal written.
\<close>

lemma takeWhile_digits:
  assumes "list_all is_digit ds" and "\<not> is_digit r"
  shows "takeWhile is_digit (ds @ r # rest) = ds"
    and "dropWhile is_digit (ds @ r # rest) = r # rest"
  using assms by (induction ds) simp_all

lemma match_fraction_digits:
  assumes "fp \<noteq> []" and "list_all is_digit fp" and "\<not> is_digit r"
  shows "match_fraction (CHR ''.'' # fp @ r # rest) = (Some fp, r # rest)"
proof -
  obtain q fq where fp: "fp = q # fq" using assms(1) by (cases fp) simp_all
  have q: "is_digit q" using assms(2) by (simp add: fp)
  have "match_fraction (CHR ''.'' # q # fq @ r # rest) =
      (Some (takeWhile is_digit ((q # fq) @ r # rest)), dropWhile is_digit ((q # fq) @ r # rest))"
    using q by (simp add: match_fraction_def)
  then show ?thesis
    unfolding fp using takeWhile_digits [OF assms(2,3), of rest] by (simp add: fp)
qed

lemma match_exponent_none:
  assumes "r \<noteq> CHR ''e''" and "r \<noteq> CHR ''E''"
  shows "match_exponent (r # rest) = (None, r # rest)"
  using assms by (simp add: match_exponent_def)

lemma match_number_decimal:
  assumes "ip \<noteq> []" and "hd ip \<noteq> CHR ''0''" and "list_all is_digit ip"
    and "fp \<noteq> []" and "list_all is_digit fp"
    and "r = CHR '','' \<or> r = CHR ''}''"
  shows "match_number (ip @ CHR ''.'' # fp @ r # rest) =
           Some (PFloat (fl (of_int (digits_value ip)
                             + of_int (digits_value fp) / 10 ^ length fp)), r # rest)"
proof -
  obtain d ds where ip: "ip = d # ds" using assms(1) by (cases ip) simp_all
  have d: "is_digit d" "d \<noteq> CHR ''0''" using assms(2,3) by (simp_all add: ip)
  have dm: "d \<noteq> CHR ''-''" using d(1) by (auto simp: is_digit_def)
  have r: "\<not> is_digit r" "r \<noteq> CHR ''e''" "r \<noteq> CHR ''E''"
    using assms(6) by (auto simp: is_digit_def)
  have dot: "\<not> is_digit CHR ''.''" by (simp add: is_digit_def)
  have dds: "list_all is_digit ds" using assms(3) by (simp add: ip)
  note tw = takeWhile_digits [OF dds dot, of "fp @ r # rest"]
  note mf = match_fraction_digits [OF assms(4,5) r(1), of rest]
  note me = match_exponent_none [OF r(2,3), of rest]
  show ?thesis
    unfolding ip using d dm
    by (simp add: match_number_def tw mf me)
qed

lemma scan_once_decimal:
  assumes "ip \<noteq> []" and "hd ip \<noteq> CHR ''0''" and "list_all is_digit ip"
    and "fp \<noteq> []" and "list_all is_digit fp"
    and "r = CHR '','' \<or> r = CHR ''}''"
  shows "scan_once (Suc f) (ip @ CHR ''.'' # fp @ r # rest) =
           Some (PFloat (fl (of_int (digits_value ip)
                             + of_int (digits_value fp) / 10 ^ length fp)), r # rest)"
proof -
  obtain d ds where ip: "ip = d # ds" using assms(1) by (cases ip) simp_all
  have d: "is_digit d" using assms(3) by (simp add: ip)
  have n: "d \<noteq> CHR 0x22" "d \<noteq> CHR ''{''" "d \<noteq> CHR ''[''" "d \<noteq> CHR ''n''" "d \<noteq> CHR ''t''"
    "d \<noteq> CHR ''f''"
    using d by (auto simp: is_digit_def)
  have "scan_once (Suc f) (d # ds @ CHR ''.'' # fp @ r # rest) =
      match_number (d # ds @ CHR ''.'' # fp @ r # rest)"
    using n by simp
  then show ?thesis
    using match_number_decimal [OF assms, of rest] by (simp add: ip)
qed

lemma scan_once_float:
  assumes "0 < x" and "rounded_to m x" and "1 \<le> decade x" and "decade x + int m \<le> 15"
    and "r = CHR '','' \<or> r = CHR ''}''"
  shows "scan_once (Suc f) (skip_ws (float_repr x @ r # rest)) = Some (PFloat x, r # rest)"
proof -
  from float_repr_decimal [OF assms(1-4)]
  obtain ip fp where a: "float_repr x = ip @ CHR ''.'' # fp"
    "ip \<noteq> []" "hd ip \<noteq> CHR ''0''" "list_all is_digit ip" "fp \<noteq> []" "list_all is_digit fp"
    "fl (of_int (digits_value ip) + of_int (digits_value fp) / 10 ^ length fp) = x"
    by blast
  obtain d ds where ip: "ip = d # ds" using a(2) by (cases ip) simp_all
  have "is_digit d" using a(4) by (simp add: ip)
  then have "\<not> is_ws d" by (auto simp: is_digit_def is_ws_def)
  then have "skip_ws (float_repr x @ r # rest) = float_repr x @ r # rest"
    by (simp add: a(1) ip skip_ws_def)
  then show ?thesis
    using scan_once_decimal [OF a(2-6) assms(5), of f rest] by (simp add: a(1,7))
qed

lemma decade_range:
  assumes "1 \<le> x" and "x < 1000"
  shows "1 \<le> decade x \<and> decade x \<le> 3"
proof -
  have b: "10 powi (decade x - 1) \<le> x" "x < 10 powi decade x"
    using decade_bounds [of x] assms(1) by simp_all
  have "\<not> decade x \<le> 0"
  proof
    assume "decade x \<le> 0"
    then have "(10::rat) powi decade x \<le> 10 powi 0"
      by (intro power_int_increasing) simp_all
    with b(2) assms(1) show False by simp
  qed
  moreover have "\<not> 4 \<le> decade x"
  proof
    assume "4 \<le> decade x"
    then have "(10::rat) powi 3 \<le> 10 powi (decade x - 1)"
      by (intro power_int_increasing) simp_all
    with b(1) assms(2) show False by simp
  qed
  ultimately show ?thesis by linarith
qed

lemma scan_once_field:
  assumes "rounded_to m x" and "1 \<le> x" and "x < 1000" and "m \<le> 4"
    and "r = CHR '','' \<or> r = CHR ''}''"
  shows "scan_once (Suc f) (skip_ws (float_repr x @ r # rest)) = Some (PFloat x, r # rest)"
proof -
  note k = decade_range [OF assms(2,3)]
  have x: "0 < x" using assms(2) by simp
  have "decade x + int m \<le> 15" using k assms(4) by simp
  from scan_once_float [OF x assms(1) conjunct1 [OF k] this assms(5)] show ?thesis .
qed

lemma field_values:
  assumes "random_value r1" and "random_value r2" and "random_value r3" and "random_value r4"
  defines "la \<equiv> py_round (fl (fl (13521 / 10000) + uniform (- fl (1 / 1000)) (fl (1 / 1000)) r1)) 4"
    and "lo \<equiv> py_round (fl (fl (1038198 / 10000) + uniform (- fl (1 / 1000)) (fl (1 / 1000)) r2)) 4"
    and "t \<equiv> py_round (fl (fl (42 / 10) + uniform (- fl (5 / 10)) (fl (5 / 10)) r3)) 1"
    and "b \<equiv> py_round (fl (87 - fl (r4 * 2))) 1"
  shows "rounded_to 4 la \<and> 1 \<le> la \<and> la < 1000"
    and "rounded_to 4 lo \<and> 1 \<le> lo \<and> lo < 1000"
    and "rounded_to 1 t \<and> 1 \<le> t \<and> t < 1000"
    and "rounded_to 1 b \<and> 1 \<le> b \<and> b < 1000"
proof -
  have r1: "0 \<le> r1" "r1 < 1" and r2: "0 \<le> r2" "r2 < 1"
    and r3: "0 \<le> r3" "r3 < 1" and r4: "0 \<le> r4" "r4 < 1"
    using assms(1-4) by (simp_all add: random_value_def)
  have la: "la = py_round (fl (fl (13521 / 10000) + uniform (- fl (1 / 1000)) (fl (1 / 1000)) r1)) 4"
    and lo: "lo = py_round (fl (fl (1038198 / 10000) + uniform (- fl (1 / 1000)) (fl (1 / 1000)) r2)) 4"
    and t: "t = py_round (fl (fl (42 / 10) + uniform (- fl (5 / 10)) (fl (5 / 10)) r3)) 1"
    and b: "b = py_round (fl (87 - fl (r4 * 2))) 1"
    by (simp_all only: la_def lo_def t_def b_def)
  note jla = lat_range [OF r1] and jlo = lon_range [OF r2]
    and jt = temperature_range [OF r3] and jb = battery_range [OF r4]
  have m1: "- (2 powi 1) * 10 ^ 4 < (of_int 13511 :: rat)" "(of_int 13531 :: rat) < 2 powi 1 * 10 ^ 4"
    "- 1021 \<le> (1::int)" "(10 ^ 4 :: rat) * 2 powi (1 - 54) < 1 / 2"
    by simp_all
  note A = rounded_field [OF la conjunct1 [OF jla] conjunct2 [OF jla] m1]
  have m2: "- (2 powi 7) * 10 ^ 4 < (of_int 1038188 :: rat)" "(of_int 1038208 :: rat) < 2 powi 7 * 10 ^ 4"
    "- 1021 \<le> (7::int)" "(10 ^ 4 :: rat) * 2 powi (7 - 54) < 1 / 2"
    by simp_all
  note B = rounded_field [OF lo conjunct1 [OF jlo] conjunct2 [OF jlo] m2]
  have m3: "- (2 powi 3) * 10 ^ 1 < (of_int 37 :: rat)" "(of_int 47 :: rat) < 2 powi 3 * 10 ^ 1"
    "- 1021 \<le> (3::int)" "(10 ^ 1 :: rat) * 2 powi (3 - 54) < 1 / 2"
    by simp_all
  note T = rounded_field [OF t conjunct1 [OF jt] conjunct2 [OF jt] m3]
  have m4: "- (2 powi 7) * 10 ^ 1 < (of_int 850 :: rat)" "(of_int 870 :: rat) < 2 powi 7 * 10 ^ 1"
    "- 1021 \<le> (7::int)" "(10 ^ 1 :: rat) * 2 powi (7 - 54) < 1 / 2"
    by simp_all
  note Bt = rounded_field [OF b conjunct1 [OF jb] conjunct2 [OF jb] m4]
  have "1 \<le> la \<and> la < 1000" using A(2,3) by simp
  with A(1) show "rounded_to 4 la \<and> 1 \<le> la \<and> la < 1000" by simp
  have "1 \<le> lo \<and> lo < 1000" using B(2,3) by simp
  with B(1) show "rounded_to 4 lo \<and> 1 \<le> lo \<and> lo < 1000" by simp
  have "1 \<le> t \<and> t < 1000" using T(2,3) by simp
  with T(1) show "rounded_to 1 t \<and> 1 \<le> t \<and> t < 1000" by simp
  have "1 \<le> b \<and> b < 1000" using Bt(2,3) by simp
  with Bt(1) show "rounded_to 1 b \<and> 1 \<le> b \<and> b < 1000" by simp
qed

section \<open>Strings and objects, read back\<close>

lemma escape_plain: "plain_char c \<Longrightarrow> escape_char c = [c]"
  by (auto simp: plain_char_def escape_char_def)

lemma encode_plain:
  "list_all plain_char s \<Longrightarrow> encode_basestring_ascii s = CHR 0x22 # s @ [CHR 0x22]"
proof -
  assume "list_all plain_char s"
  then have "concat (map escape_char s) = s"
    by (induction s) (simp_all add: escape_plain)
  then show ?thesis by (simp add: encode_basestring_ascii_def)
qed

lemma scanstring_plain:
  "list_all plain_char s \<Longrightarrow> scanstring (s @ CHR 0x22 # rest) = Some (s, rest)"
proof (induction s)
  case Nil
  show ?case by simp
next
  case (Cons c s)
  then have c: "c \<noteq> CHR 0x22" "c \<noteq> CHR 0x5C" "\<not> (of_char c :: nat) < 32"
    by (simp_all add: plain_char_def)
  from Cons have "scanstring (s @ CHR 0x22 # rest) = Some (s, rest)" by simp
  with c show ?case by simp
qed

lemma digit_plain: "is_digit c \<Longrightarrow> plain_char c"
  by (auto simp: is_digit_def plain_char_def)

lemma digits_plain: "list_all is_digit s \<Longrightarrow> list_all plain_char s"
  by (induction s) (simp_all add: digit_plain)

lemma zero_pad_plain: "list_all plain_char (zero_pad w (show_nat n))"
proof -
  have "list_all is_digit (zero_pad w (show_nat n))"
    using zeros_digits [of "w - length (show_nat n)"] show_nat_digits [of n]
    by (simp add: zero_pad_def)
  then show ?thesis by (rule digits_plain)
qed

lemma isoformat_plain: "list_all plain_char (isoformat d @ ''Z'')"
proof -
  have p: "plain_char CHR ''-''" "plain_char CHR ''T''" "plain_char CHR '':''"
    "plain_char CHR ''.''" "plain_char CHR ''Z''"
    by (simp_all add: plain_char_def)
  show ?thesis
    by (simp add: isoformat_def zero_pad_plain p)
qed

lemma skip_ws_Cons:
  "skip_ws (c # s) = (if is_ws c then skip_ws s else c # s)"
  by (simp add: skip_ws_def)

lemma scan_once_string:
  "list_all plain_char s \<Longrightarrow>
     scan_once (Suc f) (skip_ws (CHR 0x22 # s @ CHR 0x22 # rest)) = Some (PStr s, rest)"
  by (simp add: scanstring_plain skip_ws_Cons is_ws_def)

lemma object_member_more:
  assumes "list_all plain_char key"
    and "scan_once f (skip_ws (vtext @ CHR '','' # CHR '' '' # CHR 0x22 # rest))
           = Some (v, CHR '','' # CHR '' '' # CHR 0x22 # rest)"
  shows "object_members (Suc f) acc
           (key @ CHR 0x22 # CHR '':'' # CHR '' '' # vtext @ CHR '','' # CHR '' '' # CHR 0x22 # rest)
         = object_members f (acc @ [(key, v)]) rest"
  by (simp add: scanstring_plain [OF assms(1)] skip_ws_Cons is_ws_def assms(2))

lemma object_member_last:
  assumes "list_all plain_char key"
    and "scan_once f (skip_ws (vtext @ CHR ''}'' # rest)) = Some (v, CHR ''}'' # rest)"
  shows "object_members (Suc f) acc
           (key @ CHR 0x22 # CHR '':'' # CHR '' '' # vtext @ CHR ''}'' # rest)
         = Some (PDict (dict_of (acc @ [(key, v)])), rest)"
  by (simp add: scanstring_plain [OF assms(1)] skip_ws_Cons is_ws_def assms(2))

lemma scan_once_object:
  "scan_once (Suc f) (skip_ws (CHR ''{'' # CHR 0x22 # rest)) = object_members f [] rest"
  by (simp add: skip_ws_Cons is_ws_def)

lemma plain_keys:
  "list_all plain_char ''device_id''" "list_all plain_char ''timestamp''"
  "list_all plain_char ''location''" "list_all plain_char ''lat''" "list_all plain_char ''lon''"
  "list_all plain_char ''temperature''" "list_all plain_char ''battery''"
  "list_all plain_char ''CARGO-ESP32-001''"
  by (simp_all add: plain_char_def)

lemma dumps_loads_reading:
  assumes ts: "list_all plain_char ts"
    and la: "rounded_to 4 la \<and> 1 \<le> la \<and> la < 1000"
    and lo: "rounded_to 4 lo \<and> 1 \<le> lo \<and> lo < 1000"
    and t: "rounded_to 1 t \<and> 1 \<le> t \<and> t < 1000"
    and b: "rounded_to 1 b \<and> 1 \<le> b \<and> b < 1000"
  defines "reading \<equiv>
     PDict
      [(''device_id'', PStr ''CARGO-ESP32-001''),
       (''timestamp'', PStr ts),
       (''location'', PDict [(''lat'', PFloat la), (''lon'', PFloat lo)]),
       (''temperature'', PFloat t),
       (''battery'', PFloat b)]"
  shows "json_loads (json_dumps reading) = Some reading"
proof -
  define M5 where "M5 =
    ''battery'' @ CHR 0x22 # CHR '':'' # CHR '' '' # float_repr b @ CHR ''}'' # []"
  define M4 where "M4 =
    ''temperature'' @ CHR 0x22 # CHR '':'' # CHR '' '' # float_repr t
      @ CHR '','' # CHR '' '' # CHR 0x22 # M5"
  define N2 where "N2 = (\<lambda>rest.
    ''lon'' @ CHR 0x22 # CHR '':'' # CHR '' '' # float_repr lo @ CHR ''}'' # rest)"
  define N1 where "N1 = (\<lambda>rest.
    ''lat'' @ CHR 0x22 # CHR '':'' # CHR '' '' # float_repr la
      @ CHR '','' # CHR '' '' # CHR 0x22 # N2 rest)"
  define V3 where "V3 =
    CHR ''{'' # CHR 0x22 # ''lat'' @ CHR 0x22 # CHR '':'' # CHR '' '' # float_repr la
      @ CHR '','' # CHR '' '' # CHR 0x22 # ''lon'' @ CHR 0x22 # CHR '':'' # CHR '' ''
      # float_repr lo @ ''}''"
  define M3 where "M3 =
    ''location'' @ CHR 0x22 # CHR '':'' # CHR '' '' # V3 @ CHR '','' # CHR '' '' # CHR 0x22 # M4"
  define V2 where "V2 = CHR 0x22 # ts @ [CHR 0x22]"
  define M2 where "M2 =
    ''timestamp'' @ CHR 0x22 # CHR '':'' # CHR '' '' # V2 @ CHR '','' # CHR '' '' # CHR 0x22 # M3"
  define V1 where "V1 = CHR 0x22 # ''CARGO-ESP32-001'' @ [CHR 0x22]"
  define M1 where "M1 =
    ''device_id'' @ CHR 0x22 # CHR '':'' # CHR '' '' # V1 @ CHR '','' # CHR '' '' # CHR 0x22 # M2"
  define T where "T = CHR ''{'' # CHR 0x22 # M1"
  have comma: "CHR '','' = CHR '','' \<or> CHR '','' = CHR ''}''"
    and brace: "CHR ''}'' = CHR '','' \<or> CHR ''}'' = CHR ''}''"
    by simp_all
  have m4: "(4::nat) \<le> 4" and m1: "(1::nat) \<le> 4" by simp_all
  note Fla = scan_once_field [OF conjunct1 [OF la] conjunct1 [OF conjunct2 [OF la]]
      conjunct2 [OF conjunct2 [OF la]] m4]
  note Flo = scan_once_field [OF conjunct1 [OF lo] conjunct1 [OF conjunct2 [OF lo]]
      conjunct2 [OF conjunct2 [OF lo]] m4]
  note Ft = scan_once_field [OF conjunct1 [OF t] conjunct1 [OF conjunct2 [OF t]]
      conjunct2 [OF conjunct2 [OF t]] m1]
  note Fb = scan_once_field [OF conjunct1 [OF b] conjunct1 [OF conjunct2 [OF b]]
      conjunct2 [OF conjunct2 [OF b]] m1]
  have s5: "object_members (Suc (Suc f)) acc M5 =
      Some (PDict (dict_of (acc @ [(''battery'', PFloat b)])), [])" for f acc
    unfolding M5_def by (rule object_member_last [OF plain_keys(7) Fb [OF brace]])
  have s4: "object_members (Suc (Suc f)) acc M4 =
      object_members (Suc f) (acc @ [(''temperature'', PFloat t)]) M5" for f acc
    unfolding M4_def by (rule object_member_more [OF plain_keys(6) Ft [OF comma]])
  have n2: "object_members (Suc (Suc f)) acc (N2 rest) =
      Some (PDict (dict_of (acc @ [(''lon'', PFloat lo)])), rest)" for f acc rest
    unfolding N2_def by (rule object_member_last [OF plain_keys(5) Flo [OF brace]])
  have n1: "object_members (Suc (Suc f)) acc (N1 rest) =
      object_members (Suc f) (acc @ [(''lat'', PFloat la)]) (N2 rest)" for f acc rest
    unfolding N1_def by (rule object_member_more [OF plain_keys(4) Fla [OF comma]])
  have V3: "V3 @ rest = CHR ''{'' # CHR 0x22 # N1 rest" for rest
    by (simp add: V3_def N1_def N2_def)
  have v3: "scan_once (Suc (Suc (Suc (Suc f)))) (skip_ws (V3 @ rest)) =
      Some (PDict (dict_of ([] @ [(''lat'', PFloat la)] @ [(''lon'', PFloat lo)])), rest)"
    for f rest
    unfolding V3 scan_once_object n1 n2 by simp
  have s3: "object_members (Suc (Suc (Suc (Suc (Suc f))))) acc M3 =
      object_members (Suc (Suc (Suc (Suc f))))
        (acc @ [(''location'', PDict (dict_of ([] @ [(''lat'', PFloat la)] @ [(''lon'', PFloat lo)])))])
        M4" for f acc
    unfolding M3_def by (rule object_member_more [OF plain_keys(3) v3])
  have v2: "scan_once (Suc f) (skip_ws (V2 @ rest)) = Some (PStr ts, rest)" for f rest
    using scan_once_string [OF ts, of f rest] by (simp add: V2_def)
  have s2: "object_members (Suc (Suc f)) acc M2 =
      object_members (Suc f) (acc @ [(''timestamp'', PStr ts)]) M3" for f acc
    unfolding M2_def by (rule object_member_more [OF plain_keys(2) v2])
  have v1: "scan_once (Suc f) (skip_ws (V1 @ rest)) = Some (PStr ''CARGO-ESP32-001'', rest)"
    for f rest
    using scan_once_string [OF plain_keys(8), of f rest] by (simp add: V1_def)
  have s1: "object_members (Suc (Suc f)) acc M1 =
      object_members (Suc f) (acc @ [(''device_id'', PStr ''CARGO-ESP32-001'')]) M2" for f acc
    unfolding M1_def by (rule object_member_more [OF plain_keys(1) v1])
  have d2: "dict_of ([] @ [(''lat'', PFloat la)] @ [(''lon'', PFloat lo)]) =
      [(''lat'', PFloat la), (''lon'', PFloat lo)]"
    by (simp add: dict_of_def)
  have d5: "dict_of ((((([] @ [(''device_id'', PStr ''CARGO-ESP32-001'')])
        @ [(''timestamp'', PStr ts)])
        @ [(''location'', PDict [(''lat'', PFloat la), (''lon'', PFloat lo)])])
        @ [(''temperature'', PFloat t)]) @ [(''battery'', PFloat b)]) =
      [(''device_id'', PStr ''CARGO-ESP32-001''), (''timestamp'', PStr ts),
       (''location'', PDict [(''lat'', PFloat la), (''lon'', PFloat lo)]),
       (''temperature'', PFloat t), (''battery'', PFloat b)]"
    by (simp add: dict_of_def)
  have parse: "scan_once (Suc (Suc (Suc (Suc (Suc (Suc (Suc (Suc f)))))))) (skip_ws T) =
      Some (reading, [])" for f
    unfolding T_def scan_once_object s1 s2 s3 s4 s5 d2 d5 reading_def by (rule refl)
  have dumps: "json_dumps reading = T"
    by (simp add: reading_def plain_keys [THEN encode_plain] encode_plain [OF ts]
        T_def M1_def M2_def M3_def M4_def M5_def V1_def V2_def V3_def)
  have "7 \<le> length T"
    by (simp add: T_def M1_def)
  then have "Suc (length T) = Suc (Suc (Suc (Suc (Suc (Suc (Suc (Suc (length T - 7))))))))"
    by simp
  then have "scan_once (Suc (length T)) (skip_ws T) = Some (reading, [])"
    using parse [of "length T - 7"] by (simp only:)
  then show ?thesis
    unfolding dumps json_loads_def by (simp add: skip_ws_def)
qed

section \<open>The run of the script\<close>

lemma and_then_simps [simp]:
  "and_then (tr, None) f = f tr"
  "and_then (tr, Some e) f = (tr, Some e)"
  by (simp_all add: and_then_def)

lemma loop_body_returns:
  "iteration_returns w i \<Longrightarrow> loop_body w i tr = (tr @ iteration_events w i, None)"
  by (simp add: loop_body_def iteration_returns_def call_def iteration_events_def)

lemma for_loop_returns:
  "\<forall>i\<in>set is. iteration_returns w i \<Longrightarrow>
   for_loop w is tr = (tr @ concat (map (iteration_events w) is), None)"
  by (induction "is" arbitrary: tr) (simp_all add: loop_body_returns)

lemma for_loop_append:
  "for_loop w (xs @ ys) tr = and_then (for_loop w xs tr) (for_loop w ys)"
proof (induction xs arbitrary: tr)
  case Nil
  show ?case by simp
next
  case (Cons i xs)
  show ?case
  proof (cases "loop_body w i tr")
    case (Pair tr' r)
    then show ?thesis using Cons by (cases r) simp_all
  qed
qed

lemma loop_body_events:
  "\<exists>evs. fst (loop_body w i tr) = tr @ evs \<and> list_all try_event evs"
  by (cases "raises w (Generate i)"; cases "raises w (Publish i)"; cases "raises w (PrintProgress i)")
     (simp_all add: loop_body_def call_def)

lemma for_loop_events:
  "\<exists>evs. fst (for_loop w is tr) = tr @ evs \<and> list_all try_event evs"
proof (induction "is" arbitrary: tr)
  case Nil
  show ?case by simp
next
  case (Cons i "is")
  obtain evs where b: "fst (loop_body w i tr) = tr @ evs" "list_all try_event evs"
    using loop_body_events by blast
  show ?case
  proof (cases "loop_body w i tr")
    case (Pair tr' r)
    with b have tr': "tr' = tr @ evs" by simp
    show ?thesis
    proof (cases r)
      case None
      obtain evs' where "fst (for_loop w is tr') = tr' @ evs'" "list_all try_event evs'"
        using Cons.IH by blast
      with Pair None tr' b show ?thesis by auto
    next
      case (Some e)
      with Pair tr' b show ?thesis by auto
    qed
  qed
qed


lemma try_block_events:
  "\<exists>evs. fst (try_block w []) = evs \<and> list_all try_event evs"
proof -
  obtain evs where "fst (for_loop w [0..<nat TOTAL_STEPS] setup_events) = setup_events @ evs"
    "list_all try_event evs"
    using for_loop_events by blast
  then show ?thesis
    by (cases "raises w PrintConnecting"; cases "raises w Connect"; cases "raises w LoopStart")
       (simp_all add: try_block_def call_def setup_events_def)
qed

lemma except_clause_events:
  "\<exists>evs. fst (except_clause w (try_block w [])) = evs \<and> list_all try_event evs"
proof -
  obtain evs where e: "fst (try_block w []) = evs" "list_all try_event evs"
    using try_block_events by blast
  show ?thesis
  proof (cases "try_block w []")
    case (Pair tr r)
    with e show ?thesis
      by (auto simp: except_clause_def call_def split: option.splits exn.splits)
  qed
qed

lemma run_simulation_events:
  "\<exists>pre post. fst (run_simulation w) = pre @ post \<and> list_all try_event pre \<and>
     (post = [Called_loop_stop] \<or> post = [Called_loop_stop, Called_disconnect])"
proof -
  obtain pre where e: "fst (except_clause w (try_block w [])) = pre" "list_all try_event pre"
    using except_clause_events by blast
  show ?thesis
  proof (cases "raises w LoopStop")
    case None
    with e have "fst (run_simulation w) = pre @ [Called_loop_stop, Called_disconnect]"
      by (simp add: run_simulation_def finally_clause_def call_def split: option.splits)
    with e show ?thesis by blast
  next
    case (Some x)
    with e have "fst (run_simulation w) = pre @ [Called_loop_stop]"
      by (simp add: run_simulation_def finally_clause_def call_def split: option.splits)
    with e show ?thesis by blast
  qed
qed

lemma try_event_not_teardown: "try_event ev \<Longrightarrow> \<not> is_teardown ev"
  by (cases ev) simp_all

lemma total_steps: "nat TOTAL_STEPS = 3600"
  by (simp add: TOTAL_STEPS_def DURATION_HOURS_def INTERVAL_def)

lemma try_block_setup:
  "setup_returns w \<Longrightarrow> try_block w [] = for_loop w [0..<nat TOTAL_STEPS] setup_events"
  by (simp add: try_block_def setup_returns_def call_def setup_events_def)

lemma filter_publish_iterations:
  "length (filter is_publish (concat (map (iteration_events w) is))) = length is"
  by (induction "is") (simp_all add: iteration_events_def)

lemma run_complete:
  assumes "\<forall>c. raises w c = None"
  shows "run_simulation w =
          (setup_events @ concat (map (iteration_events w) [0..<nat TOTAL_STEPS])
             @ [Called_loop_stop, Called_disconnect], None)"
proof -
  have it: "\<forall>i\<in>set [0..<nat TOTAL_STEPS]. iteration_returns w i"
    using assms by (simp add: iteration_returns_def)
  have "try_block w [] =
          (setup_events @ concat (map (iteration_events w) [0..<nat TOTAL_STEPS]), None)"
    using assms for_loop_returns [OF it] by (simp add: try_block_setup setup_returns_def)
  then show ?thesis
    using assms by (simp add: run_simulation_def except_clause_def finally_clause_def call_def)
qed

text \<open>
  Claim C1. A run in which no call raises returns normally, and the number of publish
  calls it made is \<open>(DURATION_HOURS * 3600) // INTERVAL\<close>: one per iteration of the loop.
\<close>

theorem publish_count:
  assumes "\<forall>c. raises w c = None"
  shows "snd (run_simulation w) = None \<and>
         length (filter is_publish (fst (run_simulation w))) = nat ((DURATION_HOURS * 3600) div INTERVAL)"
  by (simp add: run_complete [OF assms] filter_publish_iterations setup_events_def TOTAL_STEPS_def)

theorem publish_count_witness:
  "(\<forall>c. raises calm c = None) \<and> snd (run_simulation calm) = None \<and>
   length (filter is_publish (fst (run_simulation calm))) = 3600"
proof -
  have h: "\<forall>c. raises calm c = None" by (simp add: calm_def)
  show ?thesis using h publish_count [OF h]
    by (simp add: DURATION_HOURS_def INTERVAL_def)
qed

lemma upt_split_at: "i < n \<Longrightarrow> [0..<n] = [0..<i] @ i # [Suc i..<n]"
  by (metis le_add1 less_imp_add_positive plus_nat.add_0 upt_add_eq_append upt_conv_Cons)

lemma loop_body_first_raise:
  assumes "first_raise w i c e"
  shows "loop_body w i tr = (tr @ site_events w c, Some e)"
proof -
  from assms consider "c = Generate i" | "c = Publish i" | "c = PrintProgress i" | "c = Sleep i"
    by (auto simp: first_raise_def loop_sites_def)
  then show ?thesis
    using assms
    by cases (simp_all add: first_raise_def loop_body_def call_def iteration_events_def)
qed

lemma for_loop_first_raise:
  assumes "\<forall>j<i. iteration_returns w j" and "i < n" and "first_raise w i c e"
  shows "for_loop w [0..<n] tr =
           (tr @ concat (map (iteration_events w) [0..<i]) @ site_events w c, Some e)"
proof -
  have pre: "for_loop w [0..<i] tr = (tr @ concat (map (iteration_events w) [0..<i]), None)"
    using assms(1) by (intro for_loop_returns) simp
  show ?thesis
    by (simp add: upt_split_at [OF assms(2)] for_loop_append pre
        loop_body_first_raise [OF assms(3)])
qed

lemma try_block_first_raise:
  assumes "setup_returns w" and "\<forall>j<i. iteration_returns w j" and "i < nat TOTAL_STEPS"
    and "first_raise w i c e"
  shows "try_block w [] =
           (setup_events @ concat (map (iteration_events w) [0..<i]) @ site_events w c, Some e)"
  using for_loop_first_raise [OF assms(2-4)] by (simp add: try_block_setup [OF assms(1)])

text \<open>
  Claim C3, as stated, fails on one exit path: the \<open>finally\<close> block calls \<open>loop_stop\<close>
  and then \<open>disconnect\<close> with nothing around them, so when \<open>loop_stop\<close> itself raises,
  \<open>disconnect\<close> is not called. Here the run is interrupted during the first sleep and
  interrupted again during \<open>loop_stop\<close>.
\<close>

theorem disconnect_skipped:
  "raises interrupted_twice (Sleep 0) = Some KeyboardInterrupt \<and>
   raises interrupted_twice LoopStop = Some KeyboardInterrupt \<and>
   run_simulation interrupted_twice =
     (setup_events @ iteration_events interrupted_twice 0
        @ [Printed (CHR 0x0A # ''Stopping...''), Called_loop_stop],
      Some KeyboardInterrupt) \<and>
   Called_disconnect \<notin> set (fst (run_simulation interrupted_twice))"
proof -
  have s: "setup_returns interrupted_twice"
    by (simp add: setup_returns_def interrupted_twice_def calm_def)
  have f: "first_raise interrupted_twice 0 (Sleep 0) KeyboardInterrupt"
    by (simp add: first_raise_def loop_sites_def interrupted_twice_def calm_def)
  have "try_block interrupted_twice [] =
          (setup_events @ concat (map (iteration_events interrupted_twice) [0..<0])
             @ site_events interrupted_twice (Sleep 0), Some KeyboardInterrupt)"
    using s f by (intro try_block_first_raise) (simp_all add: total_steps)
  then have run: "run_simulation interrupted_twice =
     (setup_events @ iteration_events interrupted_twice 0
        @ [Printed (CHR 0x0A # ''Stopping...''), Called_loop_stop],
      Some KeyboardInterrupt)"
    by (simp add: run_simulation_def except_clause_def finally_clause_def call_def
        interrupted_twice_def calm_def)
  have "Called_disconnect \<notin> set (fst (run_simulation interrupted_twice))"
    unfolding run by (simp add: setup_events_def iteration_events_def)
  with run show ?thesis
    by (simp add: interrupted_twice_def calm_def)
qed

text \<open>
  Claim C3, amended. Whatever the \<open>try\<close> block did (ran to the end, was interrupted, or
  raised anything else at any call), the \<open>finally\<close> block runs once: \<open>loop_stop\<close> is
  called exactly once, after every other event, and when \<open>loop_stop\<close> returns,
  \<open>disconnect\<close> is called exactly once, right after it. When \<open>loop_stop\<close> raises,
  \<open>disconnect\<close> is not called.
\<close>

theorem teardown_once:
  "\<exists>pre. fst (run_simulation w) =
           pre @ (if raises w LoopStop = None then [Called_loop_stop, Called_disconnect]
                  else [Called_loop_stop]) \<and>
         list_all (\<lambda>ev. \<not> is_teardown ev) pre"
proof -
  obtain pre where e: "fst (except_clause w (try_block w [])) = pre" "list_all try_event pre"
    using except_clause_events by blast
  from e have "fst (run_simulation w) =
      pre @ (if raises w LoopStop = None then [Called_loop_stop, Called_disconnect]
             else [Called_loop_stop])"
    by (auto simp: run_simulation_def finally_clause_def call_def split: option.splits)
  moreover from e have "list_all (\<lambda>ev. \<not> is_teardown ev) pre"
    by (auto simp: list_all_iff dest: try_event_not_teardown)
  ultimately show ?thesis by blast
qed

theorem teardown_once_witness:
  "raises interrupted LoopStop = None \<and>
   (\<exists>pre. fst (run_simulation interrupted) = pre @ [Called_loop_stop, Called_disconnect] \<and>
          list_all (\<lambda>ev. \<not> is_teardown ev) pre) \<and>
   raises interrupted_twice LoopStop = Some KeyboardInterrupt \<and>
   (\<exists>pre. fst (run_simulation interrupted_twice) = pre @ [Called_loop_stop] \<and>
          list_all (\<lambda>ev. \<not> is_teardown ev) pre)"
proof -
  have h: "raises interrupted LoopStop = None"
    "raises interrupted_twice LoopStop = Some KeyboardInterrupt"
    by (simp_all add: interrupted_def interrupted_twice_def calm_def)
  have a: "\<exists>pre. fst (run_simulation interrupted) = pre @ [Called_loop_stop, Called_disconnect] \<and>
          list_all (\<lambda>ev. \<not> is_teardown ev) pre"
    using teardown_once [of interrupted] unfolding h by simp
  have b: "\<exists>pre. fst (run_simulation interrupted_twice) = pre @ [Called_loop_stop] \<and>
          list_all (\<lambda>ev. \<not> is_teardown ev) pre"
    using teardown_once [of interrupted_twice] unfolding h by simp
  from h a b show ?thesis by blast
qed

text \<open>
  Claim C7. In every run, every publish call is made on the topic \<open>cargo/telemetry\<close> with
  \<open>qos=1\<close>, at-least-once delivery.
\<close>

theorem publish_topic_qos:
  "list_all (\<lambda>ev. is_publish ev \<longrightarrow> publish_topic ev = ''cargo/telemetry'' \<and> publish_qos ev = 1)
     (fst (run_simulation w))"
proof -
  obtain pre post where e: "fst (run_simulation w) = pre @ post" "list_all try_event pre"
    "post = [Called_loop_stop] \<or> post = [Called_loop_stop, Called_disconnect]"
    using run_simulation_events by blast
  have "is_publish ev \<longrightarrow> publish_topic ev = ''cargo/telemetry'' \<and> publish_qos ev = 1"
    if "try_event ev" for ev
    using that by (cases ev) (simp_all add: TOPIC_def)
  with e show ?thesis by (auto simp: list_all_iff)
qed

lemma run_publish_fails:
  "run_simulation publish_fails =
     (setup_events @ [Called_publish TOPIC (json_dumps (reading_at publish_fails 0)) 1,
                      Called_loop_stop, Called_disconnect],
      Some (Error ''ValueError''))"
proof -
  have s: "setup_returns publish_fails"
    by (simp add: setup_returns_def publish_fails_def calm_def)
  have f: "first_raise publish_fails 0 (Publish 0) (Error ''ValueError'')"
    by (simp add: first_raise_def loop_sites_def publish_fails_def calm_def)
  have "try_block publish_fails [] =
          (setup_events @ concat (map (iteration_events publish_fails) [0..<0])
             @ site_events publish_fails (Publish 0), Some (Error ''ValueError''))"
    using s f by (intro try_block_first_raise) (simp_all add: total_steps)
  then show ?thesis
    by (simp add: run_simulation_def except_clause_def finally_clause_def call_def
        iteration_events_def publish_fails_def calm_def)
qed

theorem publish_topic_qos_witness:
  "is_publish (Called_publish TOPIC (json_dumps (reading_at publish_fails 0)) 1) \<and>
   Called_publish TOPIC (json_dumps (reading_at publish_fails 0)) 1
     \<in> set (fst (run_simulation publish_fails)) \<and>
   publish_topic (Called_publish TOPIC (json_dumps (reading_at publish_fails 0)) 1) = ''cargo/telemetry'' \<and>
   publish_qos (Called_publish TOPIC (json_dumps (reading_at publish_fails 0)) 1) = 1"
proof -
  have mem: "Called_publish TOPIC (json_dumps (reading_at publish_fails 0)) 1
     \<in> set (fst (run_simulation publish_fails))"
    by (simp add: run_publish_fails)
  show ?thesis using mem publish_topic_qos [of publish_fails]
    by (auto simp: list_all_iff)
qed

text \<open>
  Claim C2, as stated, fails: the \<open>try\<close> statement has one handler, for
  \<open>KeyboardInterrupt\<close>. When \<open>connect\<close> raises \<open>ConnectionRefusedError\<close>, the exception
  is not caught: it propagates out of \<open>run_simulation\<close>.
\<close>

theorem connect_error_propagates:
  "raises refused Connect = Some (Error ''ConnectionRefusedError'') \<and>
   snd (run_simulation refused) = Some (Error ''ConnectionRefusedError'')"
  by (simp add: run_simulation_def try_block_def except_clause_def finally_clause_def
      call_def refused_def calm_def)

text \<open>
  Claim C2, amended. When \<open>loop_stop\<close> and \<open>disconnect\<close> themselves return: an exception
  of the \<open>connect\<close> call is caught only when it is a \<open>KeyboardInterrupt\<close>; any other
  exception of \<open>connect\<close> propagates out of \<open>run_simulation\<close>, after one call of
  \<open>connect\<close> (no retry, no \<open>loop_start\<close>, no publish) and after teardown. Any other error
  raised by a call of the loop body (reading the clock and the random source, publish,
  print, sleep) is not caught either and propagates after teardown.
\<close>

theorem connect_and_loop_errors:
  assumes "raises w LoopStop = None" and "raises w Disconnect = None"
  shows "(raises w PrintConnecting = None \<and> raises w Connect = Some KeyboardInterrupt \<longrightarrow>
            run_simulation w =
              ([Printed (''Connecting to '' @ BROKER_ADDRESS @ ''...''),
                Called_connect BROKER_ADDRESS PORT 60,
                Printed (CHR 0x0A # ''Stopping...''),
                Called_loop_stop, Called_disconnect],
               raises w PrintStopping))
       \<and> (\<forall>n. raises w PrintConnecting = None \<and> raises w Connect = Some (Error n) \<longrightarrow>
            run_simulation w =
              ([Printed (''Connecting to '' @ BROKER_ADDRESS @ ''...''),
                Called_connect BROKER_ADDRESS PORT 60,
                Called_loop_stop, Called_disconnect],
               Some (Error n)))
       \<and> (\<forall>i c n. setup_returns w \<and> (\<forall>j<i. iteration_returns w j) \<and> i < nat TOTAL_STEPS \<and>
               first_raise w i c (Error n) \<longrightarrow>
            run_simulation w =
              (setup_events @ concat (map (iteration_events w) [0..<i]) @ site_events w c
                 @ [Called_loop_stop, Called_disconnect],
               Some (Error n)))"
proof (intro conjI allI impI)
  assume "raises w PrintConnecting = None \<and> raises w Connect = Some KeyboardInterrupt"
  with assms show "run_simulation w =
              ([Printed (''Connecting to '' @ BROKER_ADDRESS @ ''...''),
                Called_connect BROKER_ADDRESS PORT 60,
                Printed (CHR 0x0A # ''Stopping...''),
                Called_loop_stop, Called_disconnect],
               raises w PrintStopping)"
    by (simp add: run_simulation_def try_block_def except_clause_def finally_clause_def call_def)
next
  fix n
  assume "raises w PrintConnecting = None \<and> raises w Connect = Some (Error n)"
  with assms show "run_simulation w =
              ([Printed (''Connecting to '' @ BROKER_ADDRESS @ ''...''),
                Called_connect BROKER_ADDRESS PORT 60,
                Called_loop_stop, Called_disconnect],
               Some (Error n))"
    by (simp add: run_simulation_def try_block_def except_clause_def finally_clause_def call_def)
next
  fix i c n
  assume a: "setup_returns w \<and> (\<forall>j<i. iteration_returns w j) \<and> i < nat TOTAL_STEPS \<and>
               first_raise w i c (Error n)"
  then have "try_block w [] =
          (setup_events @ concat (map (iteration_events w) [0..<i]) @ site_events w c,
           Some (Error n))"
    by (intro try_block_first_raise) simp_all
  with assms show "run_simulation w =
              (setup_events @ concat (map (iteration_events w) [0..<i]) @ site_events w c
                 @ [Called_loop_stop, Called_disconnect],
               Some (Error n))"
    by (simp add: run_simulation_def except_clause_def finally_clause_def call_def)
qed

theorem connect_and_loop_errors_witness:
  "raises refused LoopStop = None \<and> raises refused Disconnect = None \<and>
   raises refused PrintConnecting = None \<and>
   raises refused Connect = Some (Error ''ConnectionRefusedError'') \<and>
   run_simulation refused =
     ([Printed (''Connecting to '' @ BROKER_ADDRESS @ ''...''),
       Called_connect BROKER_ADDRESS PORT 60,
       Called_loop_stop, Called_disconnect],
      Some (Error ''ConnectionRefusedError'')) \<and>
   raises sleep_fails LoopStop = None \<and> raises sleep_fails Disconnect = None \<and>
   setup_returns sleep_fails \<and> iteration_returns sleep_fails 0 \<and> 1 < nat TOTAL_STEPS \<and>
   first_raise sleep_fails 1 (Sleep 1) (Error ''OSError'') \<and>
   run_simulation sleep_fails =
     (setup_events @ iteration_events sleep_fails 0 @ iteration_events sleep_fails 1
        @ [Called_loop_stop, Called_disconnect],
      Some (Error ''OSError''))"
proof -
  have r: "raises refused LoopStop = None" "raises refused Disconnect = None"
    "raises refused PrintConnecting = None"
    "raises refused Connect = Some (Error ''ConnectionRefusedError'')"
    by (simp_all add: refused_def calm_def)
  have p: "raises sleep_fails LoopStop = None" "raises sleep_fails Disconnect = None"
    "setup_returns sleep_fails" "\<forall>j<1. iteration_returns sleep_fails j" "1 < nat TOTAL_STEPS"
    "first_raise sleep_fails 1 (Sleep 1) (Error ''OSError'')"
    by (simp_all add: sleep_fails_def calm_def setup_returns_def iteration_returns_def
        first_raise_def loop_sites_def total_steps)
  note a = connect_and_loop_errors [OF r(1,2)]
  note b = connect_and_loop_errors [OF p(1,2)]
  from a r have 1: "run_simulation refused =
     ([Printed (''Connecting to '' @ BROKER_ADDRESS @ ''...''),
       Called_connect BROKER_ADDRESS PORT 60,
       Called_loop_stop, Called_disconnect],
      Some (Error ''ConnectionRefusedError''))"
    by blast
  from b have "setup_returns sleep_fails \<and> (\<forall>j<1. iteration_returns sleep_fails j) \<and>
       1 < nat TOTAL_STEPS \<and> first_raise sleep_fails 1 (Sleep 1) (Error ''OSError'') \<longrightarrow>
     run_simulation sleep_fails =
       (setup_events @ concat (map (iteration_events sleep_fails) [0..<1])
          @ site_events sleep_fails (Sleep 1) @ [Called_loop_stop, Called_disconnect],
        Some (Error ''OSError''))"
    by blast
  with p have 2: "run_simulation sleep_fails =
     (setup_events @ iteration_events sleep_fails 0 @ iteration_events sleep_fails 1
        @ [Called_loop_stop, Called_disconnect],
      Some (Error ''OSError''))"
    by simp
  have q: "iteration_returns sleep_fails 0"
    using p(4) by simp
  from r p(1-3,5,6) q 1 2 show ?thesis by blast
qed

section \<open>The shape of a reading\<close>

text \<open>
  Claim C10. A reading is a dictionary with exactly the five top-level keys
  \<open>device_id\<close>, \<open>timestamp\<close>, \<open>location\<close>, \<open>temperature\<close>, \<open>battery\<close>, and its
  \<open>location\<close> is a dictionary with exactly the two keys \<open>lat\<close> and \<open>lon\<close>.
\<close>

theorem reading_keys:
  "dict_keys (generate_cargo_data now r1 r2 r3 r4) =
     [''device_id'', ''timestamp'', ''location'', ''temperature'', ''battery''] \<and>
   map_option dict_keys (dict_get (generate_cargo_data now r1 r2 r3 r4) ''location'') =
     Some [''lat'', ''lon'']"
  by (simp add: generate_cargo_data_def)

text \<open>
  Claim C8. In a reading, \<open>device_id\<close> is the string \<open>CARGO-ESP32-001\<close>, \<open>timestamp\<close> is
  a non-empty string that ends in \<open>Z\<close>, and \<open>location.lat\<close>, \<open>location.lon\<close>,
  \<open>temperature\<close> and \<open>battery\<close> are numbers.
\<close>

theorem reading_fields:
  "dict_get (generate_cargo_data now r1 r2 r3 r4) ''device_id'' = Some (PStr ''CARGO-ESP32-001'') \<and>
   dict_get (generate_cargo_data now r1 r2 r3 r4) ''timestamp'' = Some (PStr (isoformat now @ ''Z'')) \<and>
   isoformat now @ ''Z'' \<noteq> [] \<and> last (isoformat now @ ''Z'') = CHR ''Z'' \<and>
   numeric_at (generate_cargo_data now r1 r2 r3 r4) [''location'', ''lat''] \<and>
   numeric_at (generate_cargo_data now r1 r2 r3 r4) [''location'', ''lon''] \<and>
   numeric_at (generate_cargo_data now r1 r2 r3 r4) [''temperature''] \<and>
   numeric_at (generate_cargo_data now r1 r2 r3 r4) [''battery'']"
  by (simp add: generate_cargo_data_def numeric_at_def)

section \<open>Readings do not depend on earlier readings\<close>

lemma published_iterations:
  "published (concat (map (iteration_events w) is)) = map (\<lambda>i. json_dumps (reading_at w i)) is"
  by (induction "is") (simp_all add: published_def iteration_events_def)

lemma published_complete:
  assumes "\<forall>c. raises w c = None"
  shows "published (fst (run_simulation w)) =
           map (\<lambda>i. json_dumps (reading_at w i)) [0..<nat TOTAL_STEPS]"
proof -
  have "published (fst (run_simulation w)) =
          published (concat (map (iteration_events w) [0..<nat TOTAL_STEPS]))"
    by (simp add: run_complete [OF assms] published_def setup_events_def)
  then show ?thesis by (simp add: published_iterations)
qed

text \<open>
  Claim C9. In a run that completes, the payload published at iteration \<open>i\<close> is the
  serialised reading computed from the clock and the four draws of iteration \<open>i\<close> alone:
  two runs that agree on them at \<open>i\<close> publish the same payload at \<open>i\<close>, whatever
  happened at the other iterations. The battery is 87 minus twice the fresh draw,
  rounded, so it can go up from one reading to the next: with the draws 0.5 and then 0.0
  it is 86.0 and then 87.0.
\<close>

theorem readings_independent:
  assumes "\<forall>c. raises w c = None" and "\<forall>c. raises w' c = None" and "i < nat TOTAL_STEPS"
    and "utcnow w i = utcnow w' i" and "random w i = random w' i"
  shows "published (fst (run_simulation w)) ! i =
           json_dumps (generate_cargo_data (utcnow w i) (random w i 0) (random w i 1)
                         (random w i 2) (random w i 3)) \<and>
         published (fst (run_simulation w)) ! i = published (fst (run_simulation w')) ! i \<and>
         dict_path (generate_cargo_data now r1 r2 r3 r4) [''battery''] =
           Some (PFloat (py_round (fl (87 - fl (r4 * 2))) 1)) \<and>
         dict_path (reading_at recharging 0) [''battery''] = Some (PFloat 86) \<and>
         dict_path (reading_at recharging 1) [''battery''] = Some (PFloat 87)"
proof -
  have pw: "published (fst (run_simulation w)) ! i = json_dumps (reading_at w i)"
    and pw': "published (fst (run_simulation w')) ! i = json_dumps (reading_at w' i)"
    using assms(3) by (simp_all add: published_complete [OF assms(1)] published_complete [OF assms(2)])
  have same: "reading_at w i = reading_at w' i"
    using assms(4,5) by (simp add: reading_at_def)
  have a: "published (fst (run_simulation w)) ! i =
           json_dumps (generate_cargo_data (utcnow w i) (random w i 0) (random w i 1)
                         (random w i 2) (random w i 3))"
    using pw unfolding reading_at_def .
  have b: "published (fst (run_simulation w)) ! i = published (fst (run_simulation w')) ! i"
    using pw pw' same by simp
  have c: "dict_path (generate_cargo_data now r1 r2 r3 r4) [''battery''] =
           Some (PFloat (py_round (fl (87 - fl (r4 * 2))) 1))"
    by (rule reading_values(4))
  have r0: "reading_at recharging 0 = generate_cargo_data noon (1 / 2) (1 / 2) (1 / 2) (1 / 2)"
    and r1: "reading_at recharging 1 = generate_cargo_data noon 0 0 0 0"
    by (simp_all add: reading_at_def recharging_def calm_def)
  have d: "dict_path (reading_at recharging 0) [''battery''] = Some (PFloat 86)"
    unfolding r0 reading_values battery_at_half by (rule refl)
  have e: "dict_path (reading_at recharging 1) [''battery''] = Some (PFloat 87)"
    unfolding r1 reading_values battery_at_zero by (rule refl)
  from a b c d e show ?thesis by blast
qed

theorem readings_independent_witness:
  "(\<forall>c. raises calm c = None) \<and> (\<forall>c. raises recharging c = None) \<and> 1 < nat TOTAL_STEPS \<and>
   utcnow calm 1 = utcnow recharging 1 \<and> random calm 1 = random recharging 1 \<and>
   random calm 0 \<noteq> random recharging 0 \<and>
   published (fst (run_simulation calm)) ! 1 = published (fst (run_simulation recharging)) ! 1"
proof -
  have h: "\<forall>c. raises calm c = None" "\<forall>c. raises recharging c = None" "1 < nat TOTAL_STEPS"
    "utcnow calm 1 = utcnow recharging 1" "random calm 1 = random recharging 1"
    by (simp_all add: calm_def recharging_def total_steps)
  have d: "random calm 0 \<noteq> random recharging 0"
    by (simp add: calm_def recharging_def fun_eq_iff)
  from h d readings_independent [OF h] show ?thesis by blast
qed

section \<open>Serialising a reading and parsing it back\<close>

lemma reading_round_trip:
  assumes "random_value r1" and "random_value r2" and "random_value r3" and "random_value r4"
  shows "json_loads (json_dumps (generate_cargo_data now r1 r2 r3 r4)) =
           Some (generate_cargo_data now r1 r2 r3 r4)"
  unfolding generate_cargo_data_def
  by (rule dumps_loads_reading [OF isoformat_plain field_values [OF assms]])

text \<open>
  Claim C4, as stated, fails on the number of fields: a reading, and so the object parsed
  back from its JSON text, has five top-level fields, not six; latitude and longitude
  are fields of the nested \<open>location\<close> object.
\<close>

theorem round_trip_five_fields:
  "random_value 0 \<and>
   json_loads (json_dumps (generate_cargo_data noon 0 0 0 0)) =
     Some (generate_cargo_data noon 0 0 0 0) \<and>
   map_option dict_keys (json_loads (json_dumps (generate_cargo_data noon 0 0 0 0))) =
     Some [''device_id'', ''timestamp'', ''location'', ''temperature'', ''battery''] \<and>
   map_option (length \<circ> dict_keys) (json_loads (json_dumps (generate_cargo_data noon 0 0 0 0))) \<noteq>
     Some 6"
proof -
  have r: "random_value 0"
    by (simp add: random_value_def)
  have k: "dict_keys (generate_cargo_data noon 0 0 0 0) =
      [''device_id'', ''timestamp'', ''location'', ''temperature'', ''battery'']"
    by (simp add: generate_cargo_data_def)
  show ?thesis
    unfolding reading_round_trip [OF r r r r] using r k by simp
qed

text \<open>
  Claim C4, amended. For every clock reading and all draws of \<open>random.random()\<close>,
  \<open>json.loads(json.dumps(reading))\<close> returns a dictionary equal to the reading: the same
  five top-level fields in the same order, the nested \<open>location\<close> with \<open>lat\<close> and \<open>lon\<close>,
  and equal values; each float is printed by \<open>repr\<close> and read back as the same float.
\<close>

theorem round_trip_identity:
  assumes "random_value r1" and "random_value r2" and "random_value r3" and "random_value r4"
  shows "json_loads (json_dumps (generate_cargo_data now r1 r2 r3 r4)) =
           Some (generate_cargo_data now r1 r2 r3 r4) \<and>
         map_option dict_keys (json_loads (json_dumps (generate_cargo_data now r1 r2 r3 r4))) =
           Some [''device_id'', ''timestamp'', ''location'', ''temperature'', ''battery'']"
proof -
  have "dict_keys (generate_cargo_data now r1 r2 r3 r4) =
      [''device_id'', ''timestamp'', ''location'', ''temperature'', ''battery'']"
    by (simp add: generate_cargo_data_def)
  then show ?thesis
    unfolding reading_round_trip [OF assms] by simp
qed

theorem round_trip_identity_witness:
  "random_value (1 / 4) \<and> random_value (1 / 8) \<and>
   json_loads (json_dumps (generate_cargo_data noon (1 / 8) (1 / 4) (1 / 4) (1 / 8))) =
     Some (generate_cargo_data noon (1 / 8) (1 / 4) (1 / 4) (1 / 8)) \<and>
   dict_path (generate_cargo_data noon (1 / 8) (1 / 4) (1 / 4) (1 / 8)) [''temperature''] =
     Some (PFloat 4) \<and>
   dict_path (generate_cargo_data noon (1 / 8) (1 / 4) (1 / 4) (1 / 8)) [''battery''] =
     Some (PFloat (fl (868 / 10)))"
proof -
  have r: "random_value (1 / 4)" "random_value (1 / 8)"
    by (simp_all add: random_value_def)
  have t: "dict_path (generate_cargo_data noon (1 / 8) (1 / 4) (1 / 4) (1 / 8)) [''temperature''] =
      Some (PFloat 4)"
    unfolding reading_values temperature_at_quarter by (rule refl)
  have b: "dict_path (generate_cargo_data noon (1 / 8) (1 / 4) (1 / 4) (1 / 8)) [''battery''] =
      Some (PFloat (fl (868 / 10)))"
    unfolding reading_values battery_at_eighth by (rule refl)
  from r t b round_trip_identity [OF r(2) r(1) r(1) r(2), of noon] show ?thesis by blast
qed

end
